theory Spec2Isabelle
  imports Main "HOL-Library.Sublist"
begin

section \<open>Strings\<close>

text \<open>
  The engine is TypeScript. A JavaScript string is a sequence of code units; it is modelled
  as a \<open>string\<close> (a list of \<open>char\<close>), one \<open>char\<close> per code unit. A \<open>char\<close> has eight
  bits, so the model covers the strings whose code units are below 256. The functions
  below are the string methods the source calls: \<open>s.startsWith(p)\<close>, \<open>s.includes(p)\<close>
  and \<open>s.split(sep)[0]\<close> (the part of \<open>s\<close> before the first occurrence of the
  one-character separator, all of \<open>s\<close> when there is none).
\<close>

definition startsWith :: "string \<Rightarrow> string \<Rightarrow> bool" where
  "startsWith s p = prefix p s"

fun includes_str :: "string \<Rightarrow> string \<Rightarrow> bool" where
  "includes_str [] p = (p = [])"
| "includes_str (c # cs) p = (prefix p (c # cs) \<or> includes_str cs p)"

definition split_first :: "char \<Rightarrow> string \<Rightarrow> string" where
  "split_first sep s = takeWhile (\<lambda>c. c \<noteq> sep) s"

section \<open>URL canonicalisation\<close>

text \<open>
  \<^verbatim>\<open>
  function normalizeJobUrl(href: string) {
    if (!href) return null;
    let abs = href;
    if (abs.startsWith("/")) abs = `https://www.linkedin.com${abs}`;
    if (!abs.includes("/jobs/view/")) return null;
    return abs.split("?")[0];
  }
  \<close>
  \<open>null\<close> is \<open>None\<close>. The function is the same in both versions of \<open>src/jobs-ai-hr.ts\<close>.
\<close>

definition normalizeJobUrl :: "string \<Rightarrow> string option" where
  "normalizeJobUrl href =
     (if href = [] then None
      else
        let abs = (if startsWith href ''/'' then ''https://www.linkedin.com'' @ href else href)
        in if \<not> includes_str abs ''/jobs/view/'' then None
           else Some (split_first CHR ''?'' abs))"

section \<open>Text normalisation\<close>

text \<open>
  \<^verbatim>\<open>
  function normalizeText(s: string | null | undefined) {
    return (s ?? "").replace(/\s+/g, " ").trim();
  }
  \<close>
  \<open>is_space\<close> is the class \<open>\s\<close> of a JavaScript regular expression, which is also what
  \<open>trim\<close> strips, on the code units a \<open>char\<close> can hold: tab, line feed, vertical tab, form
  feed, carriage return, space and the no-break space \<open>0xA0\<close>. \<open>squeeze\<close> is
  \<open>replace(/\s+/g, " ")\<close>: every maximal run of white space becomes one space; its flag
  says that the previous code unit was white space.
\<close>

definition is_space :: "char \<Rightarrow> bool" where
  "is_space c = (of_char c \<in> {9, 10, 11, 12, 13, 32, 160 :: nat})"

fun squeeze :: "bool \<Rightarrow> string \<Rightarrow> string" where
  "squeeze in_run [] = []"
| "squeeze in_run (c # cs) =
     (if is_space c then (if in_run then squeeze True cs else CHR '' '' # squeeze True cs)
      else c # squeeze False cs)"

definition trim :: "string \<Rightarrow> string" where
  "trim s = rev (dropWhile is_space (rev (dropWhile is_space s)))"

definition normalizeText :: "string option \<Rightarrow> string" where
  "normalizeText s = trim (squeeze False (case s of None \<Rightarrow> [] | Some t \<Rightarrow> t))"

section \<open>Regular expressions\<close>

text \<open>
  The two patterns of the source use literals, alternation, an optional group and the
  word boundary \<open>\b\<close>, under the flag \<open>i\<close> and without the flag \<open>u\<close>. \<open>regex\<close> has these
  constructs. A cursor is the code unit before the current position (\<open>None\<close> at the start
  of the text) and the rest of the text. \<open>ends r cur\<close> lists the cursors at which a match of
  \<open>r\<close> that starts at \<open>cur\<close> can end, so that \<open>RegExp.prototype.test\<close>, which only asks
  whether some match exists, is \<open>regex_test\<close>: some start position has an end.

  Without the flag \<open>u\<close> a word character is one of \<open>a-z\<close>, \<open>A-Z\<close>, \<open>0-9\<close> and \<open>_\<close>, and
  two code units are equal under the flag \<open>i\<close> when their canonical forms are equal. The
  canonical form of an ASCII letter is its upper case; no code unit outside ASCII has an
  ASCII canonical form, and the patterns are ASCII, so \<open>canonicalize\<close> leaves the other
  code units as they are.
\<close>

datatype regex =
    Str string
  | WordB
  | Opt regex
  | Seq regex regex
  | Alt regex regex

type_synonym cursor = "char option \<times> string"

definition is_word_char :: "char \<Rightarrow> bool" where
  "is_word_char c =
     (let n = (of_char c :: nat)
      in (48 \<le> n \<and> n \<le> 57) \<or> (65 \<le> n \<and> n \<le> 90) \<or> n = 95 \<or> (97 \<le> n \<and> n \<le> 122))"

definition canonicalize :: "char \<Rightarrow> char" where
  "canonicalize c =
     (let n = (of_char c :: nat) in if 97 \<le> n \<and> n \<le> 122 then char_of (n - 32) else c)"

definition at_boundary :: "cursor \<Rightarrow> bool" where
  "at_boundary cur =
     ((case fst cur of None \<Rightarrow> False | Some c \<Rightarrow> is_word_char c)
      \<noteq> (case snd cur of [] \<Rightarrow> False | c # _ \<Rightarrow> is_word_char c))"

fun lit :: "string \<Rightarrow> cursor \<Rightarrow> cursor option" where
  "lit [] cur = Some cur"
| "lit (p # ps) (prev, []) = None"
| "lit (p # ps) (prev, c # cs) =
     (if canonicalize p = canonicalize c then lit ps (Some c, cs) else None)"

fun ends :: "regex \<Rightarrow> cursor \<Rightarrow> cursor list" where
  "ends (Str s) cur = (case lit s cur of None \<Rightarrow> [] | Some cur' \<Rightarrow> [cur'])"
| "ends WordB cur = (if at_boundary cur then [cur] else [])"
| "ends (Opt r) cur = ends r cur @ [cur]"
| "ends (Seq r1 r2) cur = concat (map (ends r2) (ends r1 cur))"
| "ends (Alt r1 r2) cur = ends r1 cur @ ends r2 cur"

fun test_from :: "regex \<Rightarrow> char option \<Rightarrow> string \<Rightarrow> bool" where
  "test_from r prev [] = (ends r (prev, []) \<noteq> [])"
| "test_from r prev (c # cs) = (ends r (prev, c # cs) \<noteq> [] \<or> test_from r (Some c) cs)"

definition regex_test :: "regex \<Rightarrow> string \<Rightarrow> bool" where
  "regex_test r s = test_from r None s"

section \<open>Content filter\<close>

text \<open>
  \<^verbatim>\<open>
  const AI_REGEX =
    /\b(ai|artificial intelligence|ki|k\.?i\.?|machine learning|ml\b|genai|generative ai|llm|large language model)\b/i;
  const HR_REGEX =
    /\b(hr|human resources|people\b|talent\b|recruit(ing|er|ment)|people operations|personal(wesen|abteilung)?)\b/i;

  function matchesAIandHR(text: string) {
    const ai = AI_REGEX.test(text);
    const hr = HR_REGEX.test(text);
    return { ai, hr, ok: ai && hr };
  }
  \<close>
\<close>

definition AI_REGEX :: regex where
  "AI_REGEX =
     Seq WordB (Seq
       (Alt (Str ''ai'')
       (Alt (Str ''artificial intelligence'')
       (Alt (Str ''ki'')
       (Alt (Seq (Str ''k'') (Seq (Opt (Str ''.'')) (Seq (Str ''i'') (Opt (Str ''.'')))))
       (Alt (Str ''machine learning'')
       (Alt (Seq (Str ''ml'') WordB)
       (Alt (Str ''genai'')
       (Alt (Str ''generative ai'')
       (Alt (Str ''llm'')
            (Str ''large language model''))))))))))
       WordB)"

definition HR_REGEX :: regex where
  "HR_REGEX =
     Seq WordB (Seq
       (Alt (Str ''hr'')
       (Alt (Str ''human resources'')
       (Alt (Seq (Str ''people'') WordB)
       (Alt (Seq (Str ''talent'') WordB)
       (Alt (Seq (Str ''recruit'') (Alt (Str ''ing'') (Alt (Str ''er'') (Str ''ment''))))
       (Alt (Str ''people operations'')
            (Seq (Str ''personal'') (Opt (Alt (Str ''wesen'') (Str ''abteilung''))))))))))
       WordB)"

record match_result =
  ai :: bool
  hr :: bool
  ok :: bool

definition matchesAIandHR :: "string \<Rightarrow> match_result" where
  "matchesAIandHR text =
     (let ai = regex_test AI_REGEX text;
          hr = regex_test HR_REGEX text
      in \<lparr>ai = ai, hr = hr, ok = ai \<and> hr\<rparr>)"

section \<open>Posting date\<close>

text \<open>
  \<^verbatim>\<open>
  function toIsoDateOrEmpty(input: string): string {
    const d = new Date(input);
    if (Number.isNaN(d.getTime())) return "";
    const yyyy = String(d.getUTCFullYear());
    const mm = String(d.getUTCMonth() + 1).padStart(2, "0");
    const dd = String(d.getUTCDate()).padStart(2, "0");
    return `${yyyy}-${mm}-${dd}`;
  }
  \<close>
  \<open>new Date(input)\<close> belongs to the platform: which strings it accepts beyond the ISO
  format depends on the JavaScript engine. It is a parameter \<open>parse\<close> of the model, giving
  the time value in milliseconds since 1970-01-01T00:00Z, or \<open>None\<close> for an invalid date
  (\<open>getTime()\<close> is \<open>NaN\<close>). The UTC getters are the operations of the language
  standard on a time value: \<open>Day\<close>, \<open>DayFromYear\<close>, \<open>YearFromTime\<close> (the year \<open>y\<close> with
  \<open>DayFromYear y \<le> Day t < DayFromYear (y + 1)\<close>, found from an estimate that is off by
  at most one), \<open>MonthFromTime\<close> and \<open>DateFromTime\<close>.
\<close>

definition msPerDay :: int where
  "msPerDay = 86400000"

definition Day :: "int \<Rightarrow> int" where
  "Day t = t div msPerDay"

definition DayFromYear :: "int \<Rightarrow> int" where
  "DayFromYear y =
     365 * (y - 1970) + (y - 1969) div 4 - (y - 1901) div 100 + (y - 1601) div 400"

definition DaysInYear :: "int \<Rightarrow> int" where
  "DaysInYear y =
     (if y mod 4 \<noteq> 0 then 365 else if y mod 100 \<noteq> 0 then 366
      else if y mod 400 \<noteq> 0 then 365 else 366)"

definition YearFromTime :: "int \<Rightarrow> int" where
  "YearFromTime t =
     (let d = Day t; y0 = 1970 + (d * 400) div 146097
      in if d < DayFromYear y0 then y0 - 1
         else if DayFromYear (y0 + 1) \<le> d then y0 + 1
         else y0)"

definition InLeapYear :: "int \<Rightarrow> int" where
  "InLeapYear t = (if DaysInYear (YearFromTime t) = 366 then 1 else 0)"

definition DayWithinYear :: "int \<Rightarrow> int" where
  "DayWithinYear t = Day t - DayFromYear (YearFromTime t)"

definition MonthFromTime :: "int \<Rightarrow> int" where
  "MonthFromTime t =
     (let d = DayWithinYear t; l = InLeapYear t
      in if d < 31 then 0
         else if d < 59 + l then 1
         else if d < 90 + l then 2
         else if d < 120 + l then 3
         else if d < 151 + l then 4
         else if d < 181 + l then 5
         else if d < 212 + l then 6
         else if d < 243 + l then 7
         else if d < 273 + l then 8
         else if d < 304 + l then 9
         else if d < 334 + l then 10
         else 11)"

definition DateFromTime :: "int \<Rightarrow> int" where
  "DateFromTime t =
     (let d = DayWithinYear t; l = InLeapYear t; m = MonthFromTime t
      in if m = 0 then d + 1
         else if m = 1 then d - 30
         else if m = 2 then d - 58 - l
         else if m = 3 then d - 89 - l
         else if m = 4 then d - 119 - l
         else if m = 5 then d - 150 - l
         else if m = 6 then d - 180 - l
         else if m = 7 then d - 211 - l
         else if m = 8 then d - 242 - l
         else if m = 9 then d - 272 - l
         else if m = 10 then d - 303 - l
         else d - 333 - l)"

text \<open>
  \<open>String(n)\<close> on an integer is its decimal numeral, with a minus sign when negative;
  \<open>s.padStart(n, "0")\<close> fills \<open>s\<close> on the left up to length \<open>n\<close>.
\<close>

fun String_nat :: "nat \<Rightarrow> string" where
  "String_nat n =
     (if n < 10 then [char_of (48 + n)]
      else String_nat (n div 10) @ [char_of (48 + n mod 10)])"

definition String_int :: "int \<Rightarrow> string" where
  "String_int i = (if i < 0 then CHR ''-'' # String_nat (nat (- i)) else String_nat (nat i))"

definition padStart :: "nat \<Rightarrow> char \<Rightarrow> string \<Rightarrow> string" where
  "padStart n c s = replicate (n - length s) c @ s"

definition toIsoDateOrEmpty :: "(string \<Rightarrow> int option) \<Rightarrow> string \<Rightarrow> string" where
  "toIsoDateOrEmpty parse input =
     (case parse input of
        None \<Rightarrow> []
      | Some t \<Rightarrow>
          let yyyy = String_int (YearFromTime t);
              mm = padStart 2 CHR ''0'' (String_int (MonthFromTime t + 1));
              dd = padStart 2 CHR ''0'' (String_int (DateFromTime t))
          in yyyy @ ''-'' @ mm @ ''-'' @ dd)"

section \<open>Detail extractor\<close>

text \<open>
  A promise of the browser API settles with a value or rejects with an error; what an
  \<open>await\<close> sees is a value of \<open>error + 'a\<close>. \<open>p.catch(() => d)\<close> is \<open>catch p d\<close>. The
  errors are the rejections of the browser API and the errors the engine throws itself:
  \<^verbatim>\<open>NAV_TIMEOUT_<tag>\<close>, \<^verbatim>\<open>BLOCKED_OR_NO_JOBS\<close> and \<^verbatim>\<open>BLOCKED_MIDRUN\<close>.
\<close>

datatype error =
    PlaywrightError string
  | NAV_TIMEOUT string
  | BLOCKED_OR_NO_JOBS
  | BLOCKED_MIDRUN

type_synonym 'a promise = "error + 'a"

definition catch :: "'a promise \<Rightarrow> 'a \<Rightarrow> 'a" where
  "catch p d = (case p of Inl e \<Rightarrow> d | Inr v \<Rightarrow> v)"

text \<open>
  \<open>page_reads\<close> holds what the page answers to each query that \<open>readJobPageDetails\<close>
  awaits on one detail page, in either version of the file: the wait for the header, the
  "show more" button, the text of the first element under the title, company and
  description selectors (\<open>textContent\<close> is \<open>null\<close> on some nodes), the document title, the
  text of the fallback region (\<open>null\<close> when no region is found), the \<open>datetime\<close> attribute
  of the first \<open>time\<close> element and the text of the posted-date element. Every one of them
  can reject. \<open>showMore_wait\<close> is the \<open>page.waitForTimeout\<close> that follows the click on
  the "show more" button: it rejects when the page is closed while the timer runs, and it
  is the one \<open>await\<close> of the function that has no \<open>catch\<close>.
\<close>

record page_reads =
  header_waitFor :: "unit promise"
  showMore_isVisible :: "bool promise"
  showMore_click :: "unit promise"
  showMore_wait :: "unit promise"
  title_textContent :: "string option promise"
  page_title :: "string promise"
  company_textContent :: "string option promise"
  desc_textContent :: "string option promise"
  root_textContent :: "string option promise"
  time_datetime :: "string option promise"
  posted_textContent :: "string option promise"

record details =
  jobTitle :: string
  company :: string
  description :: string
  postingDate :: string

text \<open>\<open>a || b\<close> on strings: the empty string is the only falsy string.\<close>

definition or_else :: "string \<Rightarrow> string \<Rightarrow> string" where
  "or_else a b = (if a \<noteq> [] then a else b)"

text \<open>
  The later version of \<open>readJobPageDetails\<close> (the file with the hard run timeout):
  \<^verbatim>\<open>
  await page.locator(...).first().waitFor({ timeout: 10_000 }).catch(() => {});
  if (await showMore.isVisible({ timeout: 800 }).catch(() => false)) {
    await showMore.click({ timeout: 1_500 }).catch(() => {});
    await page.waitForTimeout(200);
  }
  const jobTitle =
    normalizeText(await titleLoc.textContent({...}).catch(() => "")) ||
    normalizeText(await page.title().catch(() => "")) ||
    "(unknown title)";
  const company =
    normalizeText(await companyLoc.textContent({...}).catch(() => "")) || "(unknown company)";
  let description = normalizeText(await descLoc.textContent({...}).catch(() => ""));
  if (!description || description.length < 50) {
    description = normalizeText(
      await page.evaluate(() => { ...; return (root?.textContent || "").slice(0, 15000); })
        .catch(() => ""));
  }
  let postingDate = "";
  const datetime = await timeLoc.getAttribute("datetime").catch(() => null);
  if (datetime) postingDate = toIsoDateOrEmpty(datetime);
  return { jobTitle, company, description, postingDate };
  \<close>
\<close>

definition readJobPageDetails :: "(string \<Rightarrow> int option) \<Rightarrow> page_reads \<Rightarrow> details promise" where
  "readJobPageDetails parse p =
     (let _ = catch (header_waitFor p) ();
          expanded =
            (if catch (showMore_isVisible p) False
             then (let _ = catch (showMore_click p) () in showMore_wait p)
             else Inr ())
      in (case expanded of
            Inl e \<Rightarrow> Inl e
          | Inr _ \<Rightarrow>
             (let jobTitle =
                    or_else (normalizeText (catch (title_textContent p) (Some [])))
                      (or_else (normalizeText (Some (catch (page_title p) [])))
                         ''(unknown title)'');
                  company =
                    or_else (normalizeText (catch (company_textContent p) (Some [])))
                      ''(unknown company)'';
                  description = normalizeText (catch (desc_textContent p) (Some []));
                  description =
                    (if description = [] \<or> length description < 50
                     then normalizeText (Some (catch
                            (map_sum id
                               (\<lambda>root. take 15000 (case root of None \<Rightarrow> [] | Some t \<Rightarrow> t))
                               (root_textContent p)) []))
                     else description);
                  datetime = catch (time_datetime p) None;
                  postingDate =
                    (case datetime of
                       None \<Rightarrow> []
                     | Some dt \<Rightarrow> if dt \<noteq> [] then toIsoDateOrEmpty parse dt else [])
              in Inr \<lparr>jobTitle = jobTitle, company = company, description = description,
                      postingDate = postingDate\<rparr>)))"

text \<open>
  The earlier version (the file without the hard run timeout) has no wait for the header,
  no title fallback and no description fallback, and tries the text of the posted-date
  element when the \<open>datetime\<close> attribute gave no date:
  \<^verbatim>\<open>
  if (await showMore.isVisible().catch(() => false)) {
    await showMore.click({ timeout: 2_000 }).catch(() => {});
    await page.waitForTimeout(250);
  }
  const jobTitle = normalizeText(await titleLoc.textContent().catch(() => "")) || "(unknown title)";
  const company = normalizeText(await companyLoc.textContent().catch(() => "")) || "(unknown company)";
  const description = normalizeText(await descLoc.textContent().catch(() => ""));
  let postingDate = "";
  const datetime = await timeLoc.getAttribute("datetime").catch(() => null);
  if (datetime) postingDate = toIsoDateOrEmpty(datetime);
  if (!postingDate) {
    const postedText = normalizeText(await postedTextLoc.textContent().catch(() => ""));
    postingDate = toIsoDateOrEmpty(postedText);
  }
  \<close>
\<close>

definition readJobPageDetails_v1 :: "(string \<Rightarrow> int option) \<Rightarrow> page_reads \<Rightarrow> details promise" where
  "readJobPageDetails_v1 parse p =
     (let expanded =
            (if catch (showMore_isVisible p) False
             then (let _ = catch (showMore_click p) () in showMore_wait p)
             else Inr ())
      in (case expanded of
            Inl e \<Rightarrow> Inl e
          | Inr _ \<Rightarrow>
             (let jobTitle =
                    or_else (normalizeText (catch (title_textContent p) (Some [])))
                      ''(unknown title)'';
                  company =
                    or_else (normalizeText (catch (company_textContent p) (Some [])))
                      ''(unknown company)'';
                  description = normalizeText (catch (desc_textContent p) (Some []));
                  datetime = catch (time_datetime p) None;
                  postingDate =
                    (case datetime of
                       None \<Rightarrow> []
                     | Some dt \<Rightarrow> if dt \<noteq> [] then toIsoDateOrEmpty parse dt else []);
                  postingDate =
                    (if postingDate = []
                     then toIsoDateOrEmpty parse
                            (normalizeText (catch (posted_textContent p) (Some [])))
                     else postingDate)
              in Inr \<lparr>jobTitle = jobTitle, company = company, description = description,
                      postingDate = postingDate\<rparr>)))"

section \<open>The browser\<close>

text \<open>
  The engine drives a Playwright \<open>Page\<close>. The page, the site behind it and the clock are
  the world \<open>'w\<close>, which the model threads through every call; a \<open>browser\<close> says what
  each call answers and how it changes the world. \<open>page_goto\<close> is
  \<open>page.goto(url, ...)\<close>; \<open>goto_race\<close> is the race of \<open>page.goto\<close> against
  \<open>page.waitForTimeout(ms)\<close> inside \<open>gotoWithTimeout\<close>. \<open>handleConsentIfPresent\<close>,
  \<open>waitForAnyJobLinks\<close>, \<open>waitForJobsOrDetectBlock\<close>, \<open>findLeftListScroller\<close>,
  \<open>collectLeftHrefs\<close> and \<open>scrollLeft\<close> are functions of the source whose bodies only
  query the page, poll it against the clock and swallow its rejections; the engine uses
  their result alone, which the field of the same name gives. \<open>findLeftListScroller\<close>
  awaits \<open>page.evaluateHandle\<close> without a \<open>catch\<close>, so it can reject; an element handle
  is a number. \<open>read_page\<close> gives the answers of the page that is open to the queries of
  \<open>readJobPageDetails\<close>, and \<open>Date_parse\<close> is the platform's \<open>new Date(input)\<close>.

  The pauses that the engine awaits between two steps (\<open>page.waitForTimeout\<close> with a
  fixed delay, in the bodies of its two loops) are taken to elapse. A rejection of such a
  pause would end the visit or the run at that point, with the harvest state as it is
  then.
\<close>

datatype block_state = OK | BLOCKED

datatype goto_outcome = Loaded | GotoRejected string | TimerFirst

record 'w browser =
  Date_parse :: "string \<Rightarrow> int option"
  page_goto :: "string \<Rightarrow> 'w \<Rightarrow> unit promise \<times> 'w"
  goto_race :: "string \<Rightarrow> nat \<Rightarrow> 'w \<Rightarrow> goto_outcome \<times> 'w"
  handleConsentIfPresent :: "'w \<Rightarrow> 'w"
  waitForAnyJobLinks :: "'w \<Rightarrow> 'w"
  waitForJobsOrDetectBlock :: "'w \<Rightarrow> block_state \<times> 'w"
  findLeftListScroller :: "'w \<Rightarrow> nat option promise \<times> 'w"
  collectLeftHrefs :: "nat option \<Rightarrow> 'w \<Rightarrow> string list \<times> 'w"
  scrollLeft :: "nat option \<Rightarrow> nat \<Rightarrow> 'w \<Rightarrow> 'w"
  read_page :: "'w \<Rightarrow> page_reads \<times> 'w"

text \<open>
  \<^verbatim>\<open>
  async function gotoWithTimeout(page: Page, url: string, ms: number, tag: string) {
    await Promise.race([
      page.goto(url, { waitUntil: "domcontentloaded" }),
      page.waitForTimeout(ms).then(() => {
        throw new Error(`NAV_TIMEOUT_${tag}: ${ms}ms (${url})`);
      }),
    ]);
  }
  \<close>
\<close>

definition gotoWithTimeout :: "'w browser \<Rightarrow> string \<Rightarrow> nat \<Rightarrow> string \<Rightarrow> 'w \<Rightarrow> unit promise \<times> 'w" where
  "gotoWithTimeout B url ms tag w =
     (case goto_race B url ms w of
        (Loaded, w') \<Rightarrow> (Inr (), w')
      | (GotoRejected msg, w') \<Rightarrow> (Inl (PlaywrightError msg), w')
      | (TimerFirst, w') \<Rightarrow> (Inl (NAV_TIMEOUT tag), w'))"

section \<open>Harvest state\<close>

text \<open>
  \<open>ApiJob\<close> is the record type the engine returns. \<open>harvest\<close> holds the variables of
  \<open>fetchLinkedInJobsAiHr\<close>: the set \<open>seen\<close>, the array \<open>jobs\<close>, and the counters
  \<open>stagnant\<close> and \<open>lastSeen\<close>; \<open>seen.size\<close> is \<open>card\<close>. The field \<open>trace\<close> is not a
  variable of the source: it is the log of the run, with one event where the later version
  prints the round header, one at \<open>seen.add(jobUrl)\<close>, one where the navigation to the
  detail page is started (the later version prints "Open job" there) and one at
  \<open>jobs.push\<close>.
\<close>

record ApiJob =
  jobTitle :: string
  description :: string
  link :: string
  contact :: string
  company :: string
  postingDate :: string

datatype event = Round nat | SeenAdd string | OpenJob string | Match string

record harvest =
  seen :: "string set"
  jobs :: "ApiJob list"
  stagnant :: nat
  lastSeen :: nat
  trace :: "event list"

definition harvest0 :: harvest where
  "harvest0 = \<lparr>seen = {}, jobs = [], stagnant = 0, lastSeen = 0, trace = []\<rparr>"

definition SEARCH_URL :: string where
  "SEARCH_URL = ''https://www.linkedin.com/jobs/search-results/?keywords=%22AI%22%20%2B%20%22HR%22&origin=SWITCH_SEARCH_VERTICAL''"

text \<open>
  \<^verbatim>\<open>
  const hrefs = hrefsRaw
    .map((h) => h?.trim())
    .filter(Boolean)
    .map((h) => normalizeJobUrl(h!))
    .filter(Boolean) as string[];
  \<close>
  \<open>filter(Boolean)\<close> drops \<open>null\<close> and the empty string.
\<close>

definition canonical_hrefs :: "string list \<Rightarrow> string list" where
  "canonical_hrefs hrefsRaw =
     [k. Some k \<leftarrow> map normalizeJobUrl (filter (\<lambda>h. h \<noteq> []) (map trim hrefsRaw)), k \<noteq> []]"

text \<open>\<^verbatim>\<open>`${details.jobTitle}\n${details.company}\n${details.description}`\<close>\<close>

definition haystack :: "details \<Rightarrow> string" where
  "haystack d =
     details.jobTitle d @ [CHR 0x0A] @ details.company d @ [CHR 0x0A] @ details.description d"

definition to_ApiJob :: "details \<Rightarrow> string \<Rightarrow> ApiJob" where
  "to_ApiJob d jobUrl =
     \<lparr>jobTitle = details.jobTitle d, description = details.description d, link = jobUrl,
      contact = [], company = details.company d, postingDate = details.postingDate d\<rparr>"

section \<open>The harvest engine, later version\<close>

definition MAX_RESULTS_TO_PROCESS :: nat where
  "MAX_RESULTS_TO_PROCESS = 40"

definition MAX_SCROLL_ROUNDS :: nat where
  "MAX_SCROLL_ROUNDS = 10"

definition NAV_TIMEOUT_JOB_MS :: nat where
  "NAV_TIMEOUT_JOB_MS = 15000"

definition NAV_TIMEOUT_SEARCH_MS :: nat where
  "NAV_TIMEOUT_SEARCH_MS = 15000"

text \<open>
  The body of the loop over the candidates, after \<open>seen.add(jobUrl)\<close>:
  \<^verbatim>\<open>
  try {
    await gotoWithTimeout(page, jobUrl, NAV_TIMEOUT_JOB_MS, "job");
    await page.waitForTimeout(350);
    const details = await readJobPageDetails(page);
    const haystack = `${details.jobTitle}\n${details.company}\n${details.description}`;
    const m = matchesAIandHR(haystack);
    if (m.ok) {
      jobs.push({ jobTitle: details.jobTitle, description: details.description, link: jobUrl,
                  contact: "", company: details.company, postingDate: details.postingDate });
    }
  } catch (e: any) {
    console.warn(...);
  } finally {
    await gotoWithTimeout(page, SEARCH_URL, NAV_TIMEOUT_SEARCH_MS, "search-back").catch(() => {});
    await page.waitForTimeout(300);
  }
  \<close>
\<close>

definition visit :: "'w browser \<Rightarrow> string \<Rightarrow> harvest \<times> 'w \<Rightarrow> harvest \<times> 'w" where
  "visit B jobUrl st =
     (let (h, w) = st;
          h = h\<lparr>trace := trace h @ [OpenJob jobUrl]\<rparr>;
          (nav, w) = gotoWithTimeout B jobUrl NAV_TIMEOUT_JOB_MS ''job'' w;
          (h, w) =
            (case nav of
               Inl e \<Rightarrow> (h, w)
             | Inr _ \<Rightarrow>
                 (let (p, w) = read_page B w
                  in (case readJobPageDetails (Date_parse B) p of
                        Inl e \<Rightarrow> (h, w)
                      | Inr d \<Rightarrow>
                          (let m = matchesAIandHR (haystack d)
                           in if ok m
                              then (h\<lparr>jobs := jobs h @ [to_ApiJob d jobUrl],
                                      trace := trace h @ [Match jobUrl]\<rparr>, w)
                              else (h, w)))));
          (back, w) = gotoWithTimeout B SEARCH_URL NAV_TIMEOUT_SEARCH_MS ''search-back'' w
      in (h, w))"

text \<open>
  \<^verbatim>\<open>
  for (const jobUrl of hrefs) {
    if (jobs.length >= MAX_RESULTS_TO_PROCESS) break;
    if (seen.has(jobUrl)) continue;
    seen.add(jobUrl);
    console.log(`Open job: ${jobUrl}`);
    try { ... } catch { ... } finally { ... }
  }
  \<close>
\<close>

fun candidates :: "'w browser \<Rightarrow> string list \<Rightarrow> harvest \<times> 'w \<Rightarrow> harvest \<times> 'w" where
  "candidates B [] st = st"
| "candidates B (jobUrl # hrefs) (h, w) =
     (if length (jobs h) \<ge> MAX_RESULTS_TO_PROCESS then (h, w)
      else if jobUrl \<in> seen h then candidates B hrefs (h, w)
      else candidates B hrefs
             (visit B jobUrl
                (h\<lparr>seen := insert jobUrl (seen h), trace := trace h @ [SeenAdd jobUrl]\<rparr>, w)))"

text \<open>
  One round of the loop \<open>for (let round = 0; round < MAX_SCROLL_ROUNDS; round++)\<close>. A
  round ends by going on to the next round, by \<open>break\<close> or by throwing.
  \<^verbatim>\<open>
  console.log(`Round ${round + 1}/${MAX_SCROLL_ROUNDS} ...`);
  await handleConsentIfPresent(page);
  const state = await waitForJobsOrDetectBlock(page);
  if (state === "BLOCKED") throw new Error("BLOCKED_MIDRUN: verification/anti-bot detected.");
  const scroller = await findLeftListScroller(page);
  const hrefsRaw = await collectLeftHrefs(page, scroller);
  const hrefs = ...;
  for (const jobUrl of hrefs) { ... }
  if (jobs.length >= MAX_RESULTS_TO_PROCESS) break;
  const prevSeen = seen.size;
  const scrollerAfter = await findLeftListScroller(page);
  await scrollLeft(page, scrollerAfter, 2200);
  const scrollerCheck = await findLeftListScroller(page);
  const hrefsAfterRaw = await collectLeftHrefs(page, scrollerCheck);
  const hrefsAfter = ...;
  const uniqueAfter = new Set(hrefsAfter);
  console.log(...);
  if (seen.size === prevSeen) stagnant++;
  else stagnant = 0;
  if (stagnant >= 5) break;
  \<close>
\<close>

datatype 'a step = Continue 'a | Break 'a | Throw error 'a

definition round_body :: "'w browser \<Rightarrow> nat \<Rightarrow> harvest \<times> 'w \<Rightarrow> (harvest \<times> 'w) step" where
  "round_body B round st =
     (let (h, w) = st;
          h = h\<lparr>trace := trace h @ [Round round]\<rparr>;
          w = handleConsentIfPresent B w;
          (state, w) = waitForJobsOrDetectBlock B w
      in if state = BLOCKED then Throw BLOCKED_MIDRUN (h, w)
         else
           (case findLeftListScroller B w of
              (Inl e, w) \<Rightarrow> Throw e (h, w)
            | (Inr scroller, w) \<Rightarrow>
                (let (hrefsRaw, w) = collectLeftHrefs B scroller w;
                     hrefs = canonical_hrefs hrefsRaw;
                     (h, w) = candidates B hrefs (h, w)
                 in if length (jobs h) \<ge> MAX_RESULTS_TO_PROCESS then Break (h, w)
                    else
                      (let prevSeen = card (seen h)
                       in (case findLeftListScroller B w of
                             (Inl e, w) \<Rightarrow> Throw e (h, w)
                           | (Inr scrollerAfter, w) \<Rightarrow>
                               (let w = scrollLeft B scrollerAfter 2200 w
                                in (case findLeftListScroller B w of
                                      (Inl e, w) \<Rightarrow> Throw e (h, w)
                                    | (Inr scrollerCheck, w) \<Rightarrow>
                                        (let (hrefsAfterRaw, w) =
                                               collectLeftHrefs B scrollerCheck w;
                                             hrefsAfter = canonical_hrefs hrefsAfterRaw;
                                             uniqueAfter = set hrefsAfter;
                                             h = (if card (seen h) = prevSeen
                                                  then h\<lparr>stagnant := stagnant h + 1\<rparr>
                                                  else h\<lparr>stagnant := 0\<rparr>)
                                         in if stagnant h \<ge> 5 then Break (h, w)
                                            else Continue (h, w)))))))))"

function rounds :: "'w browser \<Rightarrow> nat \<Rightarrow> harvest \<times> 'w \<Rightarrow> unit promise \<times> harvest \<times> 'w" where
  "rounds B round st =
     (if round < MAX_SCROLL_ROUNDS
      then case round_body B round st of
             Continue st' \<Rightarrow> rounds B (Suc round) st'
           | Break st' \<Rightarrow> (Inr (), st')
           | Throw e st' \<Rightarrow> (Inl e, st')
      else (Inr (), st))"
  by pat_completeness auto
termination
  by (relation "measure (\<lambda>(B, round, st). MAX_SCROLL_ROUNDS - round)") auto

declare rounds.simps [simp del]

text \<open>
  The async function that \<open>fetchLinkedInJobsAiHr\<close> hands to \<open>withHardTimeout\<close>. \<open>run\<close>
  keeps the final harvest state and world beside the outcome; the function returns
  \<open>jobs\<close>, or rejects. The race of \<open>withHardTimeout\<close> against the timer of
  \<open>HARD_RUN_TIMEOUT_MS\<close> is a matter of the clock and is not part of the model.
  \<^verbatim>\<open>
  await gotoWithTimeout(page, SEARCH_URL, NAV_TIMEOUT_SEARCH_MS, "search");
  await handleConsentIfPresent(page);
  const state0 = await waitForJobsOrDetectBlock(page);
  if (state0 === "BLOCKED") throw new Error("BLOCKED_OR_NO_JOBS: ...");
  const seen = new Set<string>();
  const jobs: ApiJob[] = [];
  let stagnant = 0;
  let lastSeen = 0;
  for (...) { ... }
  return jobs;
  \<close>
\<close>

definition run :: "'w browser \<Rightarrow> 'w \<Rightarrow> unit promise \<times> harvest \<times> 'w" where
  "run B w =
     (case gotoWithTimeout B SEARCH_URL NAV_TIMEOUT_SEARCH_MS ''search'' w of
        (Inl e, w) \<Rightarrow> (Inl e, harvest0, w)
      | (Inr _, w) \<Rightarrow>
          let w = handleConsentIfPresent B w;
              (state0, w) = waitForJobsOrDetectBlock B w
          in if state0 = BLOCKED then (Inl BLOCKED_OR_NO_JOBS, harvest0, w)
             else rounds B 0 (harvest0, w))"

definition fetchLinkedInJobsAiHr :: "'w browser \<Rightarrow> 'w \<Rightarrow> ApiJob list promise" where
  "fetchLinkedInJobsAiHr B w =
     (case run B w of
        (Inl e, h, w') \<Rightarrow> Inl e
      | (Inr _, h, w') \<Rightarrow> Inr (jobs h))"

section \<open>The harvest engine, earlier version\<close>

text \<open>
  The earlier version of \<open>src/jobs-ai-hr.ts\<close> has other constants, no block detection,
  no \<open>try\<close> around a candidate, a scroller located once, and a stagnation test against
  \<open>lastSeen\<close>. Its definitions carry the suffix \<open>_v1\<close>.
\<close>

definition MAX_RESULTS_TO_PROCESS_v1 :: nat where
  "MAX_RESULTS_TO_PROCESS_v1 = 80"

definition MAX_SCROLL_ROUNDS_v1 :: nat where
  "MAX_SCROLL_ROUNDS_v1 = 25"

text \<open>
  \<^verbatim>\<open>
  await page.goto(jobUrl, { waitUntil: "domcontentloaded" }).catch(() => {});
  await page.waitForTimeout(800);
  const details = await readJobPageDetails(page);
  const haystack = `${details.jobTitle}\n${details.company}\n${details.description}`;
  const m = matchesAIandHR(haystack);
  if (!m.ok) continue;
  jobs.push({ ... link: jobUrl, contact: "", ... });
  \<close>
  Nothing catches a rejection of \<open>readJobPageDetails\<close> here: it would end the run.
\<close>

definition visit_v1 :: "'w browser \<Rightarrow> string \<Rightarrow> harvest \<times> 'w \<Rightarrow> unit promise \<times> harvest \<times> 'w" where
  "visit_v1 B jobUrl st =
     (let (h, w) = st;
          h = h\<lparr>trace := trace h @ [OpenJob jobUrl]\<rparr>;
          (nav, w) = page_goto B jobUrl w;
          (p, w) = read_page B w
      in (case readJobPageDetails_v1 (Date_parse B) p of
            Inl e \<Rightarrow> (Inl e, h, w)
          | Inr d \<Rightarrow>
              (let m = matchesAIandHR (haystack d)
               in if \<not> ok m then (Inr (), h, w)
                  else (Inr (), h\<lparr>jobs := jobs h @ [to_ApiJob d jobUrl],
                                   trace := trace h @ [Match jobUrl]\<rparr>, w))))"

text \<open>
  \<^verbatim>\<open>
  for (const jobUrl of hrefs) {
    if (jobs.length >= MAX_RESULTS_TO_PROCESS) break;
    if (seen.has(jobUrl)) continue;
    seen.add(jobUrl);
    ...
  }
  \<close>
\<close>

fun candidates_v1 :: "'w browser \<Rightarrow> string list \<Rightarrow> harvest \<times> 'w \<Rightarrow> unit promise \<times> harvest \<times> 'w" where
  "candidates_v1 B [] st = (Inr (), st)"
| "candidates_v1 B (jobUrl # hrefs) (h, w) =
     (if length (jobs h) \<ge> MAX_RESULTS_TO_PROCESS_v1 then (Inr (), h, w)
      else if jobUrl \<in> seen h then candidates_v1 B hrefs (h, w)
      else
        (case visit_v1 B jobUrl
                (h\<lparr>seen := insert jobUrl (seen h), trace := trace h @ [SeenAdd jobUrl]\<rparr>, w) of
           (Inl e, st') \<Rightarrow> (Inl e, st')
         | (Inr _, st') \<Rightarrow> candidates_v1 B hrefs st'))"

text \<open>
  \<^verbatim>\<open>
  await handleConsentIfPresent(page);
  const hrefsRaw = await collectLeftHrefs(page, scroller);
  const hrefs = ...;
  for (const jobUrl of hrefs) { ... }
  if (jobs.length >= MAX_RESULTS_TO_PROCESS) break;
  // stagnation detection
  if (seen.size === lastSeen) stagnant++;
  else stagnant = 0;
  lastSeen = seen.size;
  if (stagnant >= 4) break;
  // back to results and scroll
  await page.goto(SEARCH_URL, { waitUntil: "domcontentloaded" }).catch(() => {});
  await page.waitForTimeout(800);
  await scrollLeft(page, scroller, 1800);
  \<close>
\<close>

definition round_body_v1 :: "'w browser \<Rightarrow> nat option \<Rightarrow> nat \<Rightarrow> harvest \<times> 'w \<Rightarrow> (harvest \<times> 'w) step" where
  "round_body_v1 B scroller round st =
     (let (h, w) = st;
          h = h\<lparr>trace := trace h @ [Round round]\<rparr>;
          w = handleConsentIfPresent B w;
          (hrefsRaw, w) = collectLeftHrefs B scroller w;
          hrefs = canonical_hrefs hrefsRaw
      in (case candidates_v1 B hrefs (h, w) of
            (Inl e, st') \<Rightarrow> Throw e st'
          | (Inr _, h, w) \<Rightarrow>
              if length (jobs h) \<ge> MAX_RESULTS_TO_PROCESS_v1 then Break (h, w)
              else
                (let h = (if card (seen h) = lastSeen h
                          then h\<lparr>stagnant := stagnant h + 1\<rparr>
                          else h\<lparr>stagnant := 0\<rparr>);
                     h = h\<lparr>lastSeen := card (seen h)\<rparr>
                 in if stagnant h \<ge> 4 then Break (h, w)
                    else
                      (let (back, w) = page_goto B SEARCH_URL w;
                           w = scrollLeft B scroller 1800 w
                       in Continue (h, w)))))"

function rounds_v1 :: "'w browser \<Rightarrow> nat option \<Rightarrow> nat \<Rightarrow> harvest \<times> 'w \<Rightarrow> unit promise \<times> harvest \<times> 'w" where
  "rounds_v1 B scroller round st =
     (if round < MAX_SCROLL_ROUNDS_v1
      then case round_body_v1 B scroller round st of
             Continue st' \<Rightarrow> rounds_v1 B scroller (Suc round) st'
           | Break st' \<Rightarrow> (Inr (), st')
           | Throw e st' \<Rightarrow> (Inl e, st')
      else (Inr (), st))"
  by pat_completeness auto
termination
  by (relation "measure (\<lambda>(B, scroller, round, st). MAX_SCROLL_ROUNDS_v1 - round)") auto

declare rounds_v1.simps [simp del]

text \<open>
  \<^verbatim>\<open>
  await page.goto(SEARCH_URL, { waitUntil: "domcontentloaded" });
  await handleConsentIfPresent(page);
  await waitForAnyJobLinks(page);
  const scroller = await findLeftListScroller(page);
  const seen = new Set<string>();
  const jobs: ApiJob[] = [];
  let stagnant = 0;
  let lastSeen = 0;
  for (let round = 0; round < MAX_SCROLL_ROUNDS; round++) { ... }
  return jobs;
  \<close>
\<close>

definition run_v1 :: "'w browser \<Rightarrow> 'w \<Rightarrow> unit promise \<times> harvest \<times> 'w" where
  "run_v1 B w =
     (case page_goto B SEARCH_URL w of
        (Inl e, w) \<Rightarrow> (Inl e, harvest0, w)
      | (Inr _, w) \<Rightarrow>
          (let w = handleConsentIfPresent B w;
               w = waitForAnyJobLinks B w
           in (case findLeftListScroller B w of
                 (Inl e, w) \<Rightarrow> (Inl e, harvest0, w)
               | (Inr scroller, w) \<Rightarrow> rounds_v1 B scroller 0 (harvest0, w))))"

definition fetchLinkedInJobsAiHr_v1 :: "'w browser \<Rightarrow> 'w \<Rightarrow> ApiJob list promise" where
  "fetchLinkedInJobsAiHr_v1 B w =
     (case run_v1 B w of
        (Inl e, h, w') \<Rightarrow> Inl e
      | (Inr _, h, w') \<Rightarrow> Inr (jobs h))"

section \<open>Reading the trace\<close>

text \<open>
  \<open>adds\<close>, \<open>opens\<close> and \<open>matches\<close> are the keys of the \<open>SeenAdd\<close>, \<open>OpenJob\<close> and
  \<open>Match\<close> events of a trace, in order. \<open>paired\<close> says that marking and dispatch go
  together: every \<open>SeenAdd\<close> is followed at once by the \<open>OpenJob\<close> of the same key, and
  there is no other \<open>OpenJob\<close>.
\<close>

fun adds :: "event list \<Rightarrow> string list" where
  "adds [] = []"
| "adds (SeenAdd u # es) = u # adds es"
| "adds (e # es) = adds es"

fun opens :: "event list \<Rightarrow> string list" where
  "opens [] = []"
| "opens (OpenJob u # es) = u # opens es"
| "opens (e # es) = opens es"

fun matches :: "event list \<Rightarrow> string list" where
  "matches [] = []"
| "matches (Match u # es) = u # matches es"
| "matches (e # es) = matches es"

fun paired :: "event list \<Rightarrow> bool" where
  "paired [] = True"
| "paired (SeenAdd u # OpenJob v # es) = (u = v \<and> paired es)"
| "paired (SeenAdd u # es) = False"
| "paired (OpenJob v # es) = False"
| "paired (e # es) = paired es"

text \<open>
  What one visit does to the harvest state, in either version: it logs the dispatch, and
  it either changes nothing else or pushes one record whose link is the key.
\<close>

definition extends_by_visit :: "string \<Rightarrow> harvest \<Rightarrow> harvest \<Rightarrow> bool" where
  "extends_by_visit u h h' =
     (h' = h\<lparr>trace := trace h @ [OpenJob u]\<rparr> \<or>
      (\<exists>d. h' = h\<lparr>jobs := jobs h @ [to_ApiJob d u],
                    trace := trace h @ [OpenJob u, Match u]\<rparr>))"

text \<open>The invariant of the harvest state, for a cap on the number of records.\<close>

definition harvest_inv :: "nat \<Rightarrow> harvest \<Rightarrow> bool" where
  "harvest_inv cap h =
     (length (jobs h) \<le> cap \<and>
      distinct (map link (jobs h)) \<and>
      set (map link (jobs h)) \<subseteq> seen h \<and>
      matches (trace h) = map link (jobs h) \<and>
      paired (trace h) \<and>
      opens (trace h) = adds (trace h) \<and>
      distinct (adds (trace h)) \<and>
      set (adds (trace h)) = seen h)"

text \<open>The harvest state and world with which a round ended.\<close>

fun step_state :: "'a step \<Rightarrow> 'a" where
  "step_state (Continue st) = st"
| "step_state (Break st) = st"
| "step_state (Throw e st) = st"

section \<open>Example browsers\<close>

text \<open>
  Browsers on which the engine is run in the examples below. A rejected query is
  \<open>gone\<close>. \<open>page_recruiter\<close> shows a posting that names both topics and a date,
  \<open>page_engineer\<close> one that names only the first topic, and \<open>page_cook\<close> one that names
  neither; on all three only the title and the company can be read.
\<close>

definition gone :: "'a promise" where
  "gone = Inl (PlaywrightError ''Timeout exceeded'')"

definition unreadable :: page_reads where
  "unreadable =
     \<lparr>header_waitFor = gone, showMore_isVisible = gone, showMore_click = gone,
      showMore_wait = gone, title_textContent = gone, page_title = gone, company_textContent = gone,
      desc_textContent = gone, root_textContent = gone, time_datetime = gone,
      posted_textContent = gone\<rparr>"

definition page_recruiter :: page_reads where
  "page_recruiter =
     unreadable\<lparr>header_waitFor := Inr (), showMore_isVisible := Inr False,
       title_textContent := Inr (Some '' AI  Recruiter ''),
       company_textContent := Inr (Some ''Acme''),
       time_datetime := Inr (Some ''2024-02-29'')\<rparr>"

definition page_engineer :: page_reads where
  "page_engineer =
     unreadable\<lparr>title_textContent := Inr (Some ''AI Engineer''),
       company_textContent := Inr (Some ''Acme'')\<rparr>"

definition page_cook :: page_reads where
  "page_cook =
     unreadable\<lparr>title_textContent := Inr (Some ''Cook''),
       company_textContent := Inr (Some ''Inn'')\<rparr>"

text \<open>
  \<open>page_split\<close> names the second topic in its title and the first in its company,
  \<open>page_staff\<close> names only the second topic. On \<open>page_expand\<close> the "show more" button is
  visible and the wait after the click elapses; the title element cannot be read, the
  document title and the fallback region can.
\<close>

definition page_split :: page_reads where
  "page_split =
     unreadable\<lparr>title_textContent := Inr (Some ''Recruiter''),
       company_textContent := Inr (Some ''KI Labs'')\<rparr>"

definition page_staff :: page_reads where
  "page_staff =
     unreadable\<lparr>title_textContent := Inr (Some ''HR Manager''),
       company_textContent := Inr (Some ''Acme'')\<rparr>"


text \<open>
  The platform's parser on the date strings of the examples: \<open>2024-02-29\<close> is day
  19782 and \<open>0999-12-31\<close> is day -354286, counted from 1970-01-01; a date-only ISO
  string is UTC midnight of that day.
\<close>

definition parse_example :: "string \<Rightarrow> int option" where
  "parse_example s =
     (if s = ''2024-02-29'' then Some 1709164800000
      else if s = ''0999-12-31'' then Some (- 30610310400000)
      else None)"

text \<open>
  \<open>four_links\<close>: the world is the URL of the page that is open. The list shows four
  links, whatever is scrolled: posting 1, posting 2, posting 1 again under another query,
  and posting 3. Posting 2 is \<open>page_cook\<close>, the others are \<open>page_recruiter\<close>.
\<close>

definition four_links :: "string browser" where
  "four_links =
     \<lparr>Date_parse = parse_example,
      page_goto = (\<lambda>url w. (Inr (), url)),
      goto_race = (\<lambda>url ms w. (Loaded, url)),
      handleConsentIfPresent = (\<lambda>w. w),
      waitForAnyJobLinks = (\<lambda>w. w),
      waitForJobsOrDetectBlock = (\<lambda>w. (OK, w)),
      findLeftListScroller = (\<lambda>w. (Inr (Some 0), w)),
      collectLeftHrefs =
        (\<lambda>scroller w.
           ([''/jobs/view/1?refId=a'', '' /jobs/view/2'', ''/jobs/view/1?refId=b'',
             ''/jobs/view/3''], w)),
      scrollLeft = (\<lambda>scroller delta w. w),
      read_page = (\<lambda>w. (if w = ''https://www.linkedin.com/jobs/view/2'' then page_cook
                          else page_recruiter, w))\<rparr>"

definition recruiter_job :: "string \<Rightarrow> ApiJob" where
  "recruiter_job jobUrl =
     \<lparr>jobTitle = ''AI Recruiter'', description = [], link = jobUrl, contact = [],
      company = ''Acme'', postingDate = ''2024-02-29''\<rparr>"

text \<open>
  \<open>three_engineers\<close>: the list shows three links, and every detail page is
  \<open>page_engineer\<close>.
\<close>

definition three_engineers :: "string browser" where
  "three_engineers =
     four_links\<lparr>
       collectLeftHrefs :=
         (\<lambda>scroller w. ([''/jobs/view/1'', ''/jobs/view/2'', ''/jobs/view/3''], w)),
       read_page := (\<lambda>w. (page_engineer, w))\<rparr>"

text \<open>
  \<open>three_kinds\<close>: the list shows three links; posting 1 is \<open>page_split\<close>, posting 2 is
  \<open>page_engineer\<close> and posting 3 is \<open>page_staff\<close>. \<open>split_job\<close> is the record of
  posting 1.
\<close>

definition three_kinds :: "string browser" where
  "three_kinds =
     three_engineers\<lparr>
       read_page :=
         (\<lambda>w. (if w = ''https://www.linkedin.com/jobs/view/1'' then page_split
                else if w = ''https://www.linkedin.com/jobs/view/2'' then page_engineer
                else page_staff, w))\<rparr>"

definition split_job :: ApiJob where
  "split_job =
     \<lparr>jobTitle = ''Recruiter'', description = [],
      link = ''https://www.linkedin.com/jobs/view/1'', contact = [],
      company = ''KI Labs'', postingDate = []\<rparr>"

text \<open>
  \<open>growing_list\<close>: the world is the number of scrolls so far. The site has ten
  postings; after \<open>n\<close> scrolls the list shows the first \<open>n + 1\<close> of them, so every
  scroll reveals one new link. Every detail page is \<open>page_cook\<close>.
\<close>

definition ten_links :: "string list" where
  "ten_links =
     [''/jobs/view/0'', ''/jobs/view/1'', ''/jobs/view/2'', ''/jobs/view/3'', ''/jobs/view/4'',
      ''/jobs/view/5'', ''/jobs/view/6'', ''/jobs/view/7'', ''/jobs/view/8'', ''/jobs/view/9'']"

definition growing_list :: "nat browser" where
  "growing_list =
     \<lparr>Date_parse = parse_example,
      page_goto = (\<lambda>url w. (Inr (), w)),
      goto_race = (\<lambda>url ms w. (Loaded, w)),
      handleConsentIfPresent = (\<lambda>w. w),
      waitForAnyJobLinks = (\<lambda>w. w),
      waitForJobsOrDetectBlock = (\<lambda>w. (OK, w)),
      findLeftListScroller = (\<lambda>w. (Inr (Some 0), w)),
      collectLeftHrefs = (\<lambda>scroller w. (take (Suc w) ten_links, w)),
      scrollLeft = (\<lambda>scroller delta w. Suc w),
      read_page = (\<lambda>w. (page_cook, w))\<rparr>"

section \<open>URL canonicalisation: properties\<close>

lemma split_first_no_sep: "sep \<notin> set (split_first sep s)"
  unfolding split_first_def by (induction s) auto

lemma split_first_id: "sep \<notin> set s \<Longrightarrow> split_first sep s = s"
  unfolding split_first_def by (induction s) auto

lemma normalizeJobUrl_Some_iff:
  "normalizeJobUrl x = Some k \<longleftrightarrow>
     x \<noteq> [] \<and> includes_str x ''/jobs/view/'' \<and>
     k = split_first CHR ''?''
           (if startsWith x ''/'' then ''https://www.linkedin.com'' @ x else x)"
  unfolding normalizeJobUrl_def Let_def
  by (cases "startsWith x ''/''") auto

lemma normalizeJobUrl_None_iff:
  "normalizeJobUrl x = None \<longleftrightarrow> x = [] \<or> \<not> includes_str x ''/jobs/view/''"
  unfolding normalizeJobUrl_def Let_def
  by (cases "startsWith x ''/''") auto

lemma key_not_slash:
  assumes "normalizeJobUrl x = Some k"
  shows "\<not> startsWith k ''/''"
proof -
  from assms have k:
    "k = split_first CHR ''?''
           (if startsWith x ''/'' then ''https://www.linkedin.com'' @ x else x)"
    by (simp add: normalizeJobUrl_Some_iff)
  show ?thesis
  proof (cases "startsWith x ''/''")
    case True
    then show ?thesis using k by (simp add: split_first_def startsWith_def)
  next
    case False
    then show ?thesis using k
      by (cases x) (auto simp: split_first_def startsWith_def)
  qed
qed

text \<open>
  C7, as the spec states it (\<open>normalize(normalize(x)) == normalize(x)\<close> whenever
  \<open>normalize(x)\<close> is a key), fails: the marker \<open>/jobs/view/\<close> is looked for in the whole
  href, query included, and the query is cut off afterwards, so a key can lack the marker
  and is then rejected by a second application.
\<close>

theorem normalizeJobUrl_not_idempotent:
  "normalizeJobUrl ''/feed/?next=/jobs/view/1'' = Some ''https://www.linkedin.com/feed/''
   \<and> normalizeJobUrl ''https://www.linkedin.com/feed/'' = None"
  by (simp add: normalizeJobUrl_def startsWith_def split_first_def)

text \<open>
  C7, amended: when \<open>normalizeJobUrl\<close> yields a key, applying it to the key yields the
  same key if the key still contains \<open>/jobs/view/\<close> (the marker stood before the first
  \<open>?\<close> of the href), and \<open>null\<close> otherwise; it never yields a different key.
\<close>

theorem normalizeJobUrl_idempotent_on_marked_keys:
  "normalizeJobUrl x = Some k \<Longrightarrow>
   normalizeJobUrl k = (if includes_str k ''/jobs/view/'' then Some k else None)"
proof -
  assume a: "normalizeJobUrl x = Some k"
  have ns: "\<not> startsWith k ''/''" using a by (rule key_not_slash)
  have nq: "CHR ''?'' \<notin> set k"
    using a by (auto simp: normalizeJobUrl_Some_iff split_first_no_sep)
  have id: "split_first CHR ''?'' k = k" using nq by (rule split_first_id)
  show ?thesis
  proof (cases "includes_str k ''/jobs/view/''")
    case True
    then have "k \<noteq> []" by auto
    with True ns id show ?thesis by (simp add: normalizeJobUrl_def del: includes_str.simps)
  next
    case False
    with ns show ?thesis by (simp add: normalizeJobUrl_def del: includes_str.simps)
  qed
qed

theorem normalizeJobUrl_idempotent_on_marked_keys_witness:
  "normalizeJobUrl ''/jobs/view/42?trk=abc'' = Some ''https://www.linkedin.com/jobs/view/42''
   \<and> normalizeJobUrl ''https://www.linkedin.com/jobs/view/42''
       = Some ''https://www.linkedin.com/jobs/view/42''"
proof -
  have h: "normalizeJobUrl ''/jobs/view/42?trk=abc'' = Some ''https://www.linkedin.com/jobs/view/42''"
    by (simp add: normalizeJobUrl_def startsWith_def split_first_def)
  from normalizeJobUrl_idempotent_on_marked_keys [OF h] h show ?thesis by simp
qed

lemma split_first_prefix:
  "\<exists>rest. s = split_first sep s @ rest \<and> (rest = [] \<or> hd rest = sep)"
proof -
  have "s = split_first sep s @ dropWhile (\<lambda>c. c \<noteq> sep) s"
    by (simp add: split_first_def)
  moreover have "dropWhile (\<lambda>c. c \<noteq> sep) s = [] \<or> hd (dropWhile (\<lambda>c. c \<noteq> sep) s) = sep"
    using hd_dropWhile [of "\<lambda>c. c \<noteq> sep" s] by auto
  ultimately show ?thesis by blast
qed

text \<open>
  C8, as the spec states it, fails in two ways. Only the part from the first \<open>?\<close> on is
  cut off, so a fragment that no \<open>?\<close> precedes stays in the key. And the test is for the
  substring \<open>/jobs/view/\<close> anywhere in the href, not for a detail path: an href whose path
  is \<open>/feed/\<close> and that has the substring in its fragment is not discarded.
\<close>

theorem normalizeJobUrl_keeps_fragment:
  "normalizeJobUrl ''/jobs/view/1#frag'' = Some ''https://www.linkedin.com/jobs/view/1#frag'' \<and>
   normalizeJobUrl ''/feed/#/jobs/view/1'' = Some ''https://www.linkedin.com/feed/#/jobs/view/1''"
  by (simp add: normalizeJobUrl_def startsWith_def split_first_def)

text \<open>
  C8, amended: \<open>normalizeJobUrl\<close> returns \<open>null\<close> for the empty href and for every href
  that does not contain the substring \<open>/jobs/view/\<close>, and for no other href. Every other
  href yields a key: the href, prefixed with \<open>https://www.linkedin.com\<close> when it starts
  with \<open>/\<close>, cut before its first \<open>?\<close>. So the key never contains a \<open>?\<close>, and what was
  cut off is nothing or starts with \<open>?\<close>.
\<close>

theorem normalizeJobUrl_strips_query:
  "(x = [] \<or> \<not> includes_str x ''/jobs/view/'' \<longrightarrow> normalizeJobUrl x = None) \<and>
   (x \<noteq> [] \<and> includes_str x ''/jobs/view/'' \<longrightarrow>
      normalizeJobUrl x =
        Some (split_first CHR ''?''
                (if startsWith x ''/'' then ''https://www.linkedin.com'' @ x else x))) \<and>
   (\<forall>k. normalizeJobUrl x = Some k \<longrightarrow>
      CHR ''?'' \<notin> set k \<and>
      (\<exists>rest. (if startsWith x ''/'' then ''https://www.linkedin.com'' @ x else x) = k @ rest \<and>
              (rest = [] \<or> hd rest = CHR ''?'')))"
proof -
  let ?abs = "if startsWith x ''/'' then ''https://www.linkedin.com'' @ x else x"
  have a: "x = [] \<or> \<not> includes_str x ''/jobs/view/'' \<longrightarrow> normalizeJobUrl x = None"
    by (simp add: normalizeJobUrl_None_iff del: includes_str.simps)
  have b: "x \<noteq> [] \<and> includes_str x ''/jobs/view/'' \<longrightarrow>
      normalizeJobUrl x = Some (split_first CHR ''?'' ?abs)"
    by (simp add: normalizeJobUrl_Some_iff del: includes_str.simps)
  have c: "\<forall>k. normalizeJobUrl x = Some k \<longrightarrow>
      CHR ''?'' \<notin> set k \<and> (\<exists>rest. ?abs = k @ rest \<and> (rest = [] \<or> hd rest = CHR ''?''))"
  proof (intro allI impI)
    fix k
    assume "normalizeJobUrl x = Some k"
    then have k: "k = split_first CHR ''?'' ?abs"
      by (simp add: normalizeJobUrl_Some_iff del: includes_str.simps)
    show "CHR ''?'' \<notin> set k \<and> (\<exists>rest. ?abs = k @ rest \<and> (rest = [] \<or> hd rest = CHR ''?''))"
      unfolding k using split_first_no_sep [of "CHR ''?''" ?abs]
        split_first_prefix [of ?abs "CHR ''?''"] by blast
  qed
  from a b c show ?thesis by blast
qed

theorem normalizeJobUrl_strips_query_witness:
  "normalizeJobUrl ''/feed/'' = None \<and>
   normalizeJobUrl ''/jobs/view/42?trk=abc#frag'' = Some ''https://www.linkedin.com/jobs/view/42''
   \<and> CHR ''?'' \<notin> set ''https://www.linkedin.com/jobs/view/42''"
proof -
  have h1: "\<not> includes_str ''/feed/'' ''/jobs/view/''" by simp
  have h2: "''/jobs/view/42?trk=abc#frag'' \<noteq> [] \<and>
            includes_str ''/jobs/view/42?trk=abc#frag'' ''/jobs/view/''"
    by simp
  have n: "normalizeJobUrl ''/feed/'' = None"
    using normalizeJobUrl_strips_query [of "''/feed/''", THEN conjunct1] h1 by blast
  have "normalizeJobUrl ''/jobs/view/42?trk=abc#frag'' =
          Some (split_first CHR ''?''
                  (if startsWith ''/jobs/view/42?trk=abc#frag'' ''/''
                   then ''https://www.linkedin.com'' @ ''/jobs/view/42?trk=abc#frag''
                   else ''/jobs/view/42?trk=abc#frag''))"
    using normalizeJobUrl_strips_query [of "''/jobs/view/42?trk=abc#frag''",
        THEN conjunct2, THEN conjunct1] h2 by blast
  then have s: "normalizeJobUrl ''/jobs/view/42?trk=abc#frag''
            = Some ''https://www.linkedin.com/jobs/view/42''"
    by (simp add: startsWith_def split_first_def)
  have "CHR ''?'' \<notin> set ''https://www.linkedin.com/jobs/view/42''"
    using normalizeJobUrl_strips_query [of "''/jobs/view/42?trk=abc#frag''",
        THEN conjunct2, THEN conjunct2, rule_format, OF s] by blast
  with n s show ?thesis by blast
qed

section \<open>Invariants of a run\<close>

text \<open>
  A property of the harvest state holds at the end of every run, however the run ends, if
  it holds of the empty state, is kept by the updates of the counters and by a round
  header in the trace, and is kept by marking and visiting a new key while the cap is not
  reached. The rule is proved from the inside out: candidates, round, rounds, run.
\<close>

lemma candidates_rule:
  assumes step: "\<And>h w u. P h \<Longrightarrow> length (jobs h) < MAX_RESULTS_TO_PROCESS \<Longrightarrow> u \<notin> seen h \<Longrightarrow>
      P (fst (visit B u (h\<lparr>seen := insert u (seen h), trace := trace h @ [SeenAdd u]\<rparr>, w)))"
  shows "P h \<Longrightarrow> P (fst (candidates B us (h, w)))"
proof (induction us arbitrary: h w)
  case Nil
  then show ?case by simp
next
  case (Cons u us)
  show ?case
  proof (cases "length (jobs h) \<ge> MAX_RESULTS_TO_PROCESS \<or> u \<in> seen h")
    case True
    with Cons show ?thesis by auto
  next
    case False
    let ?h1 = "h\<lparr>seen := insert u (seen h), trace := trace h @ [SeenAdd u]\<rparr>"
    obtain h2 w2 where v: "visit B u (?h1, w) = (h2, w2)" by (cases "visit B u (?h1, w)")
    have "P h2" using step [of h u w] Cons.prems False v by simp
    then have "P (fst (candidates B us (h2, w2)))" by (rule Cons.IH)
    with False v show ?thesis by simp
  qed
qed

lemma round_body_rule:
  assumes step: "\<And>h w u. P h \<Longrightarrow> length (jobs h) < MAX_RESULTS_TO_PROCESS \<Longrightarrow> u \<notin> seen h \<Longrightarrow>
      P (fst (visit B u (h\<lparr>seen := insert u (seen h), trace := trace h @ [SeenAdd u]\<rparr>, w)))"
    and header: "\<And>h r. P h \<Longrightarrow> P (h\<lparr>trace := trace h @ [Round r]\<rparr>)"
    and counter: "\<And>h n. P h \<Longrightarrow> P (h\<lparr>stagnant := n\<rparr>)"
    and h: "P h"
  shows "P (fst (step_state (round_body B r (h, w))))"
proof -
  have r: "P (h\<lparr>trace := trace h @ [Round r]\<rparr>)" using h by (rule header)
  have c: "\<And>us w h' w'. candidates B us (h\<lparr>trace := trace h @ [Round r]\<rparr>, w) = (h', w') \<Longrightarrow> P h'"
    using candidates_rule [of P B, OF step r] by (metis fst_conv)
  show ?thesis
    unfolding round_body_def Let_def
    by (auto simp: r counter split: prod.splits sum.splits dest: c)
qed

lemma rounds_rule:
  assumes step: "\<And>h w u. P h \<Longrightarrow> length (jobs h) < MAX_RESULTS_TO_PROCESS \<Longrightarrow> u \<notin> seen h \<Longrightarrow>
      P (fst (visit B u (h\<lparr>seen := insert u (seen h), trace := trace h @ [SeenAdd u]\<rparr>, w)))"
    and header: "\<And>h r. P h \<Longrightarrow> P (h\<lparr>trace := trace h @ [Round r]\<rparr>)"
    and counter: "\<And>h n. P h \<Longrightarrow> P (h\<lparr>stagnant := n\<rparr>)"
  shows "P (fst st) \<Longrightarrow> P (fst (snd (rounds B r st)))"
proof (induction "MAX_SCROLL_ROUNDS - r" arbitrary: r st)
  case 0
  then show ?case by (simp add: rounds.simps [of B r st])
next
  case (Suc n)
  obtain h w where st: "st = (h, w)" by (cases st)
  from Suc.hyps(2) have lt: "r < MAX_SCROLL_ROUNDS" and n: "n = MAX_SCROLL_ROUNDS - Suc r"
    by auto
  have b: "P (fst (step_state (round_body B r st)))"
    using round_body_rule [of P B h r w, OF step header counter] Suc.prems st by simp
  show ?case
  proof (cases "round_body B r st")
    case (Continue st')
    with b have "P (fst st')" by simp
    with Suc.hyps(1) [OF n] lt Continue show ?thesis
      by (simp add: rounds.simps [of B r st])
  next
    case (Break st')
    with b lt show ?thesis by (simp add: rounds.simps [of B r st])
  next
    case (Throw e st')
    with b lt show ?thesis by (simp add: rounds.simps [of B r st])
  qed
qed

lemma run_rule:
  assumes step: "\<And>h w u. P h \<Longrightarrow> length (jobs h) < MAX_RESULTS_TO_PROCESS \<Longrightarrow> u \<notin> seen h \<Longrightarrow>
      P (fst (visit B u (h\<lparr>seen := insert u (seen h), trace := trace h @ [SeenAdd u]\<rparr>, w)))"
    and header: "\<And>h r. P h \<Longrightarrow> P (h\<lparr>trace := trace h @ [Round r]\<rparr>)"
    and counter: "\<And>h n. P h \<Longrightarrow> P (h\<lparr>stagnant := n\<rparr>)"
    and init: "P harvest0"
  shows "P (fst (snd (run B w)))"
proof -
  have "\<And>w. P (fst (snd (rounds B 0 (harvest0, w))))"
    using rounds_rule [of P B "(harvest0, _)" 0, OF step header counter] init by simp
  then show ?thesis
    unfolding run_def Let_def by (auto simp: init split: prod.splits sum.splits)
qed


lemma candidates_v1_rule:
  assumes step: "\<And>h w u. P h \<Longrightarrow> length (jobs h) < MAX_RESULTS_TO_PROCESS_v1 \<Longrightarrow> u \<notin> seen h \<Longrightarrow>
      P (fst (snd (visit_v1 B u
            (h\<lparr>seen := insert u (seen h), trace := trace h @ [SeenAdd u]\<rparr>, w))))"
  shows "P h \<Longrightarrow> P (fst (snd (candidates_v1 B us (h, w))))"
proof (induction us arbitrary: h w)
  case Nil
  then show ?case by simp
next
  case (Cons u us)
  show ?case
  proof (cases "length (jobs h) \<ge> MAX_RESULTS_TO_PROCESS_v1 \<or> u \<in> seen h")
    case True
    with Cons show ?thesis by auto
  next
    case False
    let ?h1 = "h\<lparr>seen := insert u (seen h), trace := trace h @ [SeenAdd u]\<rparr>"
    obtain r h2 w2 where v: "visit_v1 B u (?h1, w) = (r, h2, w2)"
      by (cases "visit_v1 B u (?h1, w)") auto
    have h2: "P h2" using step [of h u w] Cons.prems False v by simp
    show ?thesis
    proof (cases r)
      case (Inl e)
      with False v h2 show ?thesis by simp
    next
      case (Inr x)
      from h2 have "P (fst (snd (candidates_v1 B us (h2, w2))))" by (rule Cons.IH)
      with False v Inr show ?thesis by simp
    qed
  qed
qed

lemma round_body_v1_rule:
  assumes step: "\<And>h w u. P h \<Longrightarrow> length (jobs h) < MAX_RESULTS_TO_PROCESS_v1 \<Longrightarrow> u \<notin> seen h \<Longrightarrow>
      P (fst (snd (visit_v1 B u
            (h\<lparr>seen := insert u (seen h), trace := trace h @ [SeenAdd u]\<rparr>, w))))"
    and header: "\<And>h r. P h \<Longrightarrow> P (h\<lparr>trace := trace h @ [Round r]\<rparr>)"
    and counter: "\<And>h n. P h \<Longrightarrow> P (h\<lparr>stagnant := n\<rparr>)"
    and last: "\<And>h n. P h \<Longrightarrow> P (h\<lparr>lastSeen := n\<rparr>)"
    and h: "P h"
  shows "P (fst (step_state (round_body_v1 B sc r (h, w))))"
proof -
  have r: "P (h\<lparr>trace := trace h @ [Round r]\<rparr>)" using h by (rule header)
  have c: "\<And>us w x h' w'.
      candidates_v1 B us (h\<lparr>trace := trace h @ [Round r]\<rparr>, w) = (x, h', w') \<Longrightarrow> P h'"
    using candidates_v1_rule [of P B, OF step r] by (metis fst_conv snd_conv)
  show ?thesis
    unfolding round_body_v1_def Let_def
    by (auto simp: r counter last split: prod.splits sum.splits dest: c)
qed

lemma rounds_v1_rule:
  assumes step: "\<And>h w u. P h \<Longrightarrow> length (jobs h) < MAX_RESULTS_TO_PROCESS_v1 \<Longrightarrow> u \<notin> seen h \<Longrightarrow>
      P (fst (snd (visit_v1 B u
            (h\<lparr>seen := insert u (seen h), trace := trace h @ [SeenAdd u]\<rparr>, w))))"
    and header: "\<And>h r. P h \<Longrightarrow> P (h\<lparr>trace := trace h @ [Round r]\<rparr>)"
    and counter: "\<And>h n. P h \<Longrightarrow> P (h\<lparr>stagnant := n\<rparr>)"
    and last: "\<And>h n. P h \<Longrightarrow> P (h\<lparr>lastSeen := n\<rparr>)"
  shows "P (fst st) \<Longrightarrow> P (fst (snd (rounds_v1 B sc r st)))"
proof (induction "MAX_SCROLL_ROUNDS_v1 - r" arbitrary: r st)
  case 0
  then show ?case by (simp add: rounds_v1.simps [of B sc r st])
next
  case (Suc n)
  obtain h w where st: "st = (h, w)" by (cases st)
  from Suc.hyps(2) have lt: "r < MAX_SCROLL_ROUNDS_v1"
    and n: "n = MAX_SCROLL_ROUNDS_v1 - Suc r"
    by auto
  have b: "P (fst (step_state (round_body_v1 B sc r st)))"
    using round_body_v1_rule [of P B h sc r w, OF step header counter last] Suc.prems st
    by simp
  show ?case
  proof (cases "round_body_v1 B sc r st")
    case (Continue st')
    with b have "P (fst st')" by simp
    with Suc.hyps(1) [OF n] lt Continue show ?thesis
      by (simp add: rounds_v1.simps [of B sc r st])
  next
    case (Break st')
    with b lt show ?thesis by (simp add: rounds_v1.simps [of B sc r st])
  next
    case (Throw e st')
    with b lt show ?thesis by (simp add: rounds_v1.simps [of B sc r st])
  qed
qed

lemma run_v1_rule:
  assumes step: "\<And>h w u. P h \<Longrightarrow> length (jobs h) < MAX_RESULTS_TO_PROCESS_v1 \<Longrightarrow> u \<notin> seen h \<Longrightarrow>
      P (fst (snd (visit_v1 B u
            (h\<lparr>seen := insert u (seen h), trace := trace h @ [SeenAdd u]\<rparr>, w))))"
    and header: "\<And>h r. P h \<Longrightarrow> P (h\<lparr>trace := trace h @ [Round r]\<rparr>)"
    and counter: "\<And>h n. P h \<Longrightarrow> P (h\<lparr>stagnant := n\<rparr>)"
    and last: "\<And>h n. P h \<Longrightarrow> P (h\<lparr>lastSeen := n\<rparr>)"
    and init: "P harvest0"
  shows "P (fst (snd (run_v1 B w)))"
proof -
  have "\<And>w sc. P (fst (snd (rounds_v1 B sc 0 (harvest0, w))))"
    using rounds_v1_rule [of P B "(harvest0, _)" _ 0, OF step header counter last] init
    by simp
  then show ?thesis
    unfolding run_v1_def Let_def by (auto simp: init split: prod.splits sum.splits)
qed

section \<open>The invariant of the harvest state\<close>

lemma adds_append: "adds (t @ s) = adds t @ adds s"
  by (induction t rule: adds.induct) auto

lemma opens_append: "opens (t @ s) = opens t @ opens s"
  by (induction t rule: opens.induct) auto

lemma matches_append: "matches (t @ s) = matches t @ matches s"
  by (induction t rule: matches.induct) auto

lemma paired_append: "paired t \<Longrightarrow> paired (t @ s) = paired s"
  by (induction t rule: paired.induct) auto

text \<open>
  What \<open>paired\<close> says, position by position: whatever stands before a dispatch ends
  with the marking of the same key, and whatever follows a marking starts with the
  dispatch of the same key.
\<close>

lemma paired_open_after_add:
  "paired (pre @ OpenJob u # post) \<Longrightarrow> \<exists>pre'. pre = pre' @ [SeenAdd u]"
  by (induction pre rule: paired.induct) auto

lemma paired_add_before_open:
  "paired (pre @ SeenAdd u # post) \<Longrightarrow> \<exists>post'. post = OpenJob u # post'"
proof (induction pre rule: paired.induct)
  case 1
  then show ?case by (cases post rule: paired.cases) auto
qed auto

lemma matches_take: "length (matches (take n t)) \<le> length (matches t)"
proof (induction t arbitrary: n)
  case Nil
  then show ?case by simp
next
  case (Cons e es)
  show ?case
  proof (cases n)
    case 0
    then show ?thesis by simp
  next
    case (Suc m)
    with Cons.IH [of m] show ?thesis by (cases e) auto
  qed
qed

lemma harvest_inv_harvest0: "harvest_inv cap harvest0"
  by (simp add: harvest_inv_def harvest0_def)

lemma harvest_inv_round:
  "harvest_inv cap h \<Longrightarrow> harvest_inv cap (h\<lparr>trace := trace h @ [Round r]\<rparr>)"
  by (auto simp: harvest_inv_def adds_append opens_append matches_append paired_append)

lemma harvest_inv_stagnant: "harvest_inv cap h \<Longrightarrow> harvest_inv cap (h\<lparr>stagnant := n\<rparr>)"
  by (simp add: harvest_inv_def)

lemma harvest_inv_lastSeen: "harvest_inv cap h \<Longrightarrow> harvest_inv cap (h\<lparr>lastSeen := n\<rparr>)"
  by (simp add: harvest_inv_def)

lemma visit_extends: "extends_by_visit u h (fst (visit B u (h, w)))"
  by (auto simp: visit_def extends_by_visit_def Let_def split: prod.splits sum.splits)

lemma visit_v1_extends: "extends_by_visit u h (fst (snd (visit_v1 B u (h, w))))"
  by (auto simp: visit_v1_def extends_by_visit_def Let_def split: prod.splits sum.splits)

lemma mark_visit_inv:
  assumes inv: "harvest_inv cap h"
    and lt: "length (jobs h) < cap"
    and new: "u \<notin> seen h"
    and ext: "extends_by_visit u
                (h\<lparr>seen := insert u (seen h), trace := trace h @ [SeenAdd u]\<rparr>) h'"
  shows "harvest_inv cap h'"
proof -
  from ext consider
      (plain) "h' = h\<lparr>seen := insert u (seen h), trace := trace h @ [SeenAdd u, OpenJob u]\<rparr>"
    | (push) d where "h' = h\<lparr>seen := insert u (seen h), jobs := jobs h @ [to_ApiJob d u],
                              trace := trace h @ [SeenAdd u, OpenJob u, Match u]\<rparr>"
    by (auto simp: extends_by_visit_def)
  then show ?thesis
  proof cases
    case plain
    with inv new show ?thesis
      by (auto simp: harvest_inv_def adds_append opens_append matches_append paired_append)
  next
    case push
    have l: "link (to_ApiJob d u) = u" by (simp add: to_ApiJob_def)
    from push inv new lt l show ?thesis
      by (auto simp: harvest_inv_def adds_append opens_append matches_append paired_append)
  qed
qed

lemma run_inv: "harvest_inv MAX_RESULTS_TO_PROCESS (fst (snd (run B w)))"
proof (rule run_rule)
  fix h :: harvest and w :: 'a and u
  assume "harvest_inv MAX_RESULTS_TO_PROCESS h" "length (jobs h) < MAX_RESULTS_TO_PROCESS"
    "u \<notin> seen h"
  then show "harvest_inv MAX_RESULTS_TO_PROCESS
      (fst (visit B u (h\<lparr>seen := insert u (seen h), trace := trace h @ [SeenAdd u]\<rparr>, w)))"
    using visit_extends by (rule mark_visit_inv)
qed (simp_all add: harvest_inv_round harvest_inv_stagnant harvest_inv_harvest0)

lemma run_v1_inv: "harvest_inv MAX_RESULTS_TO_PROCESS_v1 (fst (snd (run_v1 B w)))"
proof (rule run_v1_rule)
  fix h :: harvest and w :: 'a and u
  assume "harvest_inv MAX_RESULTS_TO_PROCESS_v1 h" "length (jobs h) < MAX_RESULTS_TO_PROCESS_v1"
    "u \<notin> seen h"
  then show "harvest_inv MAX_RESULTS_TO_PROCESS_v1
      (fst (snd (visit_v1 B u
         (h\<lparr>seen := insert u (seen h), trace := trace h @ [SeenAdd u]\<rparr>, w))))"
    using visit_v1_extends by (rule mark_visit_inv)
qed (simp_all add: harvest_inv_round harvest_inv_stagnant harvest_inv_lastSeen
       harvest_inv_harvest0)

lemma fetch_run:
  "fetchLinkedInJobsAiHr B w = Inr js \<Longrightarrow> js = jobs (fst (snd (run B w)))"
  by (auto simp: fetchLinkedInJobsAiHr_def split: prod.splits sum.splits)

lemma fetch_run_v1:
  "fetchLinkedInJobsAiHr_v1 B w = Inr js \<Longrightarrow> js = jobs (fst (snd (run_v1 B w)))"
  by (auto simp: fetchLinkedInJobsAiHr_v1_def split: prod.splits sum.splits)

section \<open>The engine on the example browsers\<close>

lemma canonical_hrefs_four:
  "canonical_hrefs
     [''/jobs/view/1?refId=a'', '' /jobs/view/2'', ''/jobs/view/1?refId=b'', ''/jobs/view/3'']
   = [''https://www.linkedin.com/jobs/view/1'', ''https://www.linkedin.com/jobs/view/2'',
      ''https://www.linkedin.com/jobs/view/1'', ''https://www.linkedin.com/jobs/view/3'']"
  by code_simp

lemma details_recruiter:
  "readJobPageDetails parse_example page_recruiter =
     Inr \<lparr>details.jobTitle = ''AI Recruiter'', company = ''Acme'', description = [],
          postingDate = ''2024-02-29''\<rparr>"
  by code_simp

lemma details_cook:
  "readJobPageDetails parse_example page_cook =
     Inr \<lparr>details.jobTitle = ''Cook'', company = ''Inn'', description = [], postingDate = []\<rparr>"
  by code_simp


lemma details_v1_recruiter:
  "readJobPageDetails_v1 parse_example page_recruiter =
     Inr \<lparr>details.jobTitle = ''AI Recruiter'', company = ''Acme'', description = [],
          postingDate = ''2024-02-29''\<rparr>"
  by code_simp

lemma details_v1_cook:
  "readJobPageDetails_v1 parse_example page_cook =
     Inr \<lparr>details.jobTitle = ''Cook'', company = ''Inn'', description = [], postingDate = []\<rparr>"
  by code_simp

lemma details_v1_engineer:
  "readJobPageDetails_v1 parse_example page_engineer =
     Inr \<lparr>details.jobTitle = ''AI Engineer'', company = ''Acme'', description = [],
          postingDate = []\<rparr>"
  by code_simp

lemma matches_recruiter:
  "matchesAIandHR (haystack \<lparr>details.jobTitle = ''AI Recruiter'', company = ''Acme'',
      description = [], postingDate = ''2024-02-29''\<rparr>) = \<lparr>ai = True, hr = True, ok = True\<rparr>"
  by code_simp

lemma matches_cook:
  "matchesAIandHR (haystack \<lparr>details.jobTitle = ''Cook'', company = ''Inn'',
      description = [], postingDate = []\<rparr>) = \<lparr>ai = False, hr = False, ok = False\<rparr>"
  by code_simp

lemma matches_engineer:
  "matchesAIandHR (haystack \<lparr>details.jobTitle = ''AI Engineer'', company = ''Acme'',
      description = [], postingDate = []\<rparr>) = \<lparr>ai = True, hr = False, ok = False\<rparr>"
  by code_simp

lemma four_links_sel:
  "Date_parse four_links = parse_example"
  "page_goto four_links = (\<lambda>url w. (Inr (), url))"
  "goto_race four_links = (\<lambda>url ms w. (Loaded, url))"
  "handleConsentIfPresent four_links = (\<lambda>w. w)"
  "waitForAnyJobLinks four_links = (\<lambda>w. w)"
  "waitForJobsOrDetectBlock four_links = (\<lambda>w. (OK, w))"
  "findLeftListScroller four_links = (\<lambda>w. (Inr (Some 0), w))"
  "collectLeftHrefs four_links =
     (\<lambda>scroller w.
        ([''/jobs/view/1?refId=a'', '' /jobs/view/2'', ''/jobs/view/1?refId=b'',
          ''/jobs/view/3''], w))"
  "scrollLeft four_links = (\<lambda>scroller delta w. w)"
  "read_page four_links =
     (\<lambda>w. (if w = ''https://www.linkedin.com/jobs/view/2'' then page_cook
            else page_recruiter, w))"
  by (simp_all add: four_links_def)

lemma visit_four_links_recruiter:
  "url \<noteq> ''https://www.linkedin.com/jobs/view/2'' \<Longrightarrow>
   visit four_links url (h, w) =
     (h\<lparr>jobs := jobs h @ [recruiter_job url], trace := trace h @ [OpenJob url, Match url]\<rparr>,
      SEARCH_URL)"
  by (simp add: visit_def four_links_sel gotoWithTimeout_def details_recruiter
        matches_recruiter to_ApiJob_def recruiter_job_def Let_def)

lemma visit_four_links_cook:
  "visit four_links ''https://www.linkedin.com/jobs/view/2'' (h, w) =
     (h\<lparr>trace := trace h @ [OpenJob ''https://www.linkedin.com/jobs/view/2'']\<rparr>, SEARCH_URL)"
  by (simp add: visit_def four_links_sel gotoWithTimeout_def details_cook matches_cook Let_def)

lemma visit_v1_four_links_recruiter:
  "url \<noteq> ''https://www.linkedin.com/jobs/view/2'' \<Longrightarrow>
   visit_v1 four_links url (h, w) =
     (Inr (),
      h\<lparr>jobs := jobs h @ [recruiter_job url], trace := trace h @ [OpenJob url, Match url]\<rparr>,
      url)"
  by (simp add: visit_v1_def four_links_sel details_v1_recruiter
        matches_recruiter to_ApiJob_def recruiter_job_def Let_def)

lemma visit_v1_four_links_cook:
  "visit_v1 four_links ''https://www.linkedin.com/jobs/view/2'' (h, w) =
     (Inr (), h\<lparr>trace := trace h @ [OpenJob ''https://www.linkedin.com/jobs/view/2'']\<rparr>,
      ''https://www.linkedin.com/jobs/view/2'')"
  by (simp add: visit_v1_def four_links_sel details_v1_cook matches_cook Let_def)

lemma run_four_links:
  "run four_links [] =
     (Inr (),
      \<lparr>seen = {''https://www.linkedin.com/jobs/view/3'', ''https://www.linkedin.com/jobs/view/2'',
               ''https://www.linkedin.com/jobs/view/1''},
       jobs = [recruiter_job ''https://www.linkedin.com/jobs/view/1'',
               recruiter_job ''https://www.linkedin.com/jobs/view/3''],
       stagnant = 5, lastSeen = 0,
       trace = [Round 0,
                SeenAdd ''https://www.linkedin.com/jobs/view/1'',
                OpenJob ''https://www.linkedin.com/jobs/view/1'',
                Match ''https://www.linkedin.com/jobs/view/1'',
                SeenAdd ''https://www.linkedin.com/jobs/view/2'',
                OpenJob ''https://www.linkedin.com/jobs/view/2'',
                SeenAdd ''https://www.linkedin.com/jobs/view/3'',
                OpenJob ''https://www.linkedin.com/jobs/view/3'',
                Match ''https://www.linkedin.com/jobs/view/3'',
                Round 1, Round 2, Round 3, Round 4]\<rparr>,
      SEARCH_URL)"
  by (simp add: run_def rounds.simps round_body_def four_links_sel canonical_hrefs_four
        visit_four_links_recruiter visit_four_links_cook gotoWithTimeout_def harvest0_def
        MAX_SCROLL_ROUNDS_def MAX_RESULTS_TO_PROCESS_def Let_def)

lemma run_v1_four_links:
  "run_v1 four_links [] =
     (Inr (),
      \<lparr>seen = {''https://www.linkedin.com/jobs/view/3'', ''https://www.linkedin.com/jobs/view/2'',
               ''https://www.linkedin.com/jobs/view/1''},
       jobs = [recruiter_job ''https://www.linkedin.com/jobs/view/1'',
               recruiter_job ''https://www.linkedin.com/jobs/view/3''],
       stagnant = 4, lastSeen = 3,
       trace = [Round 0,
                SeenAdd ''https://www.linkedin.com/jobs/view/1'',
                OpenJob ''https://www.linkedin.com/jobs/view/1'',
                Match ''https://www.linkedin.com/jobs/view/1'',
                SeenAdd ''https://www.linkedin.com/jobs/view/2'',
                OpenJob ''https://www.linkedin.com/jobs/view/2'',
                SeenAdd ''https://www.linkedin.com/jobs/view/3'',
                OpenJob ''https://www.linkedin.com/jobs/view/3'',
                Match ''https://www.linkedin.com/jobs/view/3'',
                Round 1, Round 2, Round 3, Round 4]\<rparr>,
      SEARCH_URL)"
  by (simp add: run_v1_def rounds_v1.simps round_body_v1_def four_links_sel canonical_hrefs_four
        visit_v1_four_links_recruiter visit_v1_four_links_cook harvest0_def
        MAX_SCROLL_ROUNDS_v1_def MAX_RESULTS_TO_PROCESS_v1_def Let_def)

lemma canonical_hrefs_ten:
  "canonical_hrefs [''/jobs/view/0''] =
     [''https://www.linkedin.com/jobs/view/0'']"
  "canonical_hrefs [''/jobs/view/0'', ''/jobs/view/1''] =
     [''https://www.linkedin.com/jobs/view/0'',
      ''https://www.linkedin.com/jobs/view/1'']"
  "canonical_hrefs [''/jobs/view/0'', ''/jobs/view/1'', ''/jobs/view/2''] =
     [''https://www.linkedin.com/jobs/view/0'',
      ''https://www.linkedin.com/jobs/view/1'',
      ''https://www.linkedin.com/jobs/view/2'']"
  "canonical_hrefs [''/jobs/view/0'', ''/jobs/view/1'', ''/jobs/view/2'', ''/jobs/view/3''] =
     [''https://www.linkedin.com/jobs/view/0'',
      ''https://www.linkedin.com/jobs/view/1'',
      ''https://www.linkedin.com/jobs/view/2'',
      ''https://www.linkedin.com/jobs/view/3'']"
  "canonical_hrefs [''/jobs/view/0'', ''/jobs/view/1'', ''/jobs/view/2'', ''/jobs/view/3'', ''/jobs/view/4''] =
     [''https://www.linkedin.com/jobs/view/0'',
      ''https://www.linkedin.com/jobs/view/1'',
      ''https://www.linkedin.com/jobs/view/2'',
      ''https://www.linkedin.com/jobs/view/3'',
      ''https://www.linkedin.com/jobs/view/4'']"
  by code_simp+

lemma growing_list_sel:
  "Date_parse growing_list = parse_example"
  "goto_race growing_list = (\<lambda>url ms w. (Loaded, w))"
  "handleConsentIfPresent growing_list = (\<lambda>w. w)"
  "waitForJobsOrDetectBlock growing_list = (\<lambda>w. (OK, w))"
  "findLeftListScroller growing_list = (\<lambda>w. (Inr (Some 0), w))"
  "collectLeftHrefs growing_list = (\<lambda>scroller w. (take (Suc w) ten_links, w))"
  "scrollLeft growing_list = (\<lambda>scroller delta w. Suc w)"
  "read_page growing_list = (\<lambda>w. (page_cook, w))"
  by (simp_all add: growing_list_def)

lemma visit_growing_list:
  "visit growing_list url (h, w) = (h\<lparr>trace := trace h @ [OpenJob url]\<rparr>, w)"
  by (simp add: visit_def growing_list_sel gotoWithTimeout_def details_cook matches_cook Let_def)

lemma run_growing_list:
  "run growing_list 0 =
     (Inr (),
      \<lparr>seen = {''https://www.linkedin.com/jobs/view/4'', ''https://www.linkedin.com/jobs/view/3'',
               ''https://www.linkedin.com/jobs/view/2'', ''https://www.linkedin.com/jobs/view/1'',
               ''https://www.linkedin.com/jobs/view/0''},
       jobs = [], stagnant = 5, lastSeen = 0,
       trace = [Round 0,
                SeenAdd ''https://www.linkedin.com/jobs/view/0'',
                OpenJob ''https://www.linkedin.com/jobs/view/0'',
                Round 1,
                SeenAdd ''https://www.linkedin.com/jobs/view/1'',
                OpenJob ''https://www.linkedin.com/jobs/view/1'',
                Round 2,
                SeenAdd ''https://www.linkedin.com/jobs/view/2'',
                OpenJob ''https://www.linkedin.com/jobs/view/2'',
                Round 3,
                SeenAdd ''https://www.linkedin.com/jobs/view/3'',
                OpenJob ''https://www.linkedin.com/jobs/view/3'',
                Round 4,
                SeenAdd ''https://www.linkedin.com/jobs/view/4'',
                OpenJob ''https://www.linkedin.com/jobs/view/4'']\<rparr>,
      5)"
    by (simp add: run_def rounds.simps round_body_def growing_list_sel ten_links_def canonical_hrefs_ten
        visit_growing_list gotoWithTimeout_def harvest0_def
        MAX_SCROLL_ROUNDS_def MAX_RESULTS_TO_PROCESS_def Let_def)

section \<open>Cap, distinct links, mark before dispatch\<close>

lemma candidates_at_cap:
  "MAX_RESULTS_TO_PROCESS \<le> length (jobs h) \<Longrightarrow> candidates B us (h, w) = (h, w)"
  by (cases us) auto

lemma candidates_v1_at_cap:
  "MAX_RESULTS_TO_PROCESS_v1 \<le> length (jobs h) \<Longrightarrow>
   candidates_v1 B us (h, w) = (Inr (), h, w)"
  by (cases us) auto

lemma candidates_skip_seen:
  "u \<in> seen h \<Longrightarrow> candidates B (u # us) (h, w) = candidates B us (h, w)"
  by (simp add: candidates_at_cap)

lemma candidates_v1_skip_seen:
  "u \<in> seen h \<Longrightarrow> candidates_v1 B (u # us) (h, w) = candidates_v1 B us (h, w)"
  by (simp add: candidates_v1_at_cap)

lemma round_body_continue_below_cap:
  "round_body B r (h, w) = Continue (h', w') \<Longrightarrow> length (jobs h') < MAX_RESULTS_TO_PROCESS"
  unfolding round_body_def Let_def
  by (auto split: prod.splits sum.splits if_splits)

lemma round_body_v1_continue_below_cap:
  "round_body_v1 B sc r (h, w) = Continue (h', w') \<Longrightarrow>
   length (jobs h') < MAX_RESULTS_TO_PROCESS_v1"
  unfolding round_body_v1_def Let_def
  by (auto split: prod.splits sum.splits if_splits)

lemma round_body_four_links:
  "round_body four_links 0 (harvest0, []) =
     Continue
      (\<lparr>seen = {''https://www.linkedin.com/jobs/view/3'', ''https://www.linkedin.com/jobs/view/2'',
               ''https://www.linkedin.com/jobs/view/1''},
        jobs = [recruiter_job ''https://www.linkedin.com/jobs/view/1'',
                recruiter_job ''https://www.linkedin.com/jobs/view/3''],
        stagnant = 1, lastSeen = 0,
        trace = [Round 0,
                 SeenAdd ''https://www.linkedin.com/jobs/view/1'',
                 OpenJob ''https://www.linkedin.com/jobs/view/1'',
                 Match ''https://www.linkedin.com/jobs/view/1'',
                 SeenAdd ''https://www.linkedin.com/jobs/view/2'',
                 OpenJob ''https://www.linkedin.com/jobs/view/2'',
                 SeenAdd ''https://www.linkedin.com/jobs/view/3'',
                 OpenJob ''https://www.linkedin.com/jobs/view/3'',
                 Match ''https://www.linkedin.com/jobs/view/3'']\<rparr>,
       SEARCH_URL)"
  by (simp add: round_body_def four_links_sel canonical_hrefs_four
        visit_four_links_recruiter visit_four_links_cook harvest0_def
        MAX_RESULTS_TO_PROCESS_def Let_def)

lemma round_body_v1_four_links:
  "round_body_v1 four_links (Some 0) 0 (harvest0, []) =
     Continue
      (\<lparr>seen = {''https://www.linkedin.com/jobs/view/3'', ''https://www.linkedin.com/jobs/view/2'',
               ''https://www.linkedin.com/jobs/view/1''},
        jobs = [recruiter_job ''https://www.linkedin.com/jobs/view/1'',
                recruiter_job ''https://www.linkedin.com/jobs/view/3''],
        stagnant = 0, lastSeen = 3,
        trace = [Round 0,
                 SeenAdd ''https://www.linkedin.com/jobs/view/1'',
                 OpenJob ''https://www.linkedin.com/jobs/view/1'',
                 Match ''https://www.linkedin.com/jobs/view/1'',
                 SeenAdd ''https://www.linkedin.com/jobs/view/2'',
                 OpenJob ''https://www.linkedin.com/jobs/view/2'',
                 SeenAdd ''https://www.linkedin.com/jobs/view/3'',
                 OpenJob ''https://www.linkedin.com/jobs/view/3'',
                 Match ''https://www.linkedin.com/jobs/view/3'']\<rparr>,
       SEARCH_URL)"
  by (simp add: round_body_v1_def four_links_sel canonical_hrefs_four
        visit_v1_four_links_recruiter visit_v1_four_links_cook harvest0_def
        MAX_RESULTS_TO_PROCESS_v1_def Let_def)

text \<open>
  C1: however the browser behaves and however the run ends, the harvest state holds at
  most \<open>MAX_RESULTS_TO_PROCESS\<close> records at the end, and so does the returned array. The
  records are pushed one at a time, each push logged by a \<open>Match\<close> event, so the number of
  pushes in any prefix of the trace, which is the length of \<open>jobs\<close> at that point of the
  run, is within the cap too. The loop over the candidates tests the cap before each
  candidate: once the cap is reached it neither dispatches nor changes anything; and a
  round goes on to the next round only below the cap. The same holds of the earlier
  version with its own cap.
\<close>

theorem results_never_exceed_cap:
  "length (jobs (fst (snd (run B w)))) \<le> MAX_RESULTS_TO_PROCESS \<and>
   (\<forall>n. length (matches (take n (trace (fst (snd (run B w)))))) \<le> MAX_RESULTS_TO_PROCESS) \<and>
   (\<forall>js. fetchLinkedInJobsAiHr B w = Inr js \<longrightarrow> length js \<le> MAX_RESULTS_TO_PROCESS) \<and>
   (\<forall>us h w'. MAX_RESULTS_TO_PROCESS \<le> length (jobs h) \<longrightarrow>
      candidates B us (h, w') = (h, w')) \<and>
   (\<forall>r h w' h' w''. round_body B r (h, w') = Continue (h', w'') \<longrightarrow>
      length (jobs h') < MAX_RESULTS_TO_PROCESS) \<and>
   length (jobs (fst (snd (run_v1 B w)))) \<le> MAX_RESULTS_TO_PROCESS_v1 \<and>
   (\<forall>n. length (matches (take n (trace (fst (snd (run_v1 B w))))))
      \<le> MAX_RESULTS_TO_PROCESS_v1) \<and>
   (\<forall>js. fetchLinkedInJobsAiHr_v1 B w = Inr js \<longrightarrow> length js \<le> MAX_RESULTS_TO_PROCESS_v1) \<and>
   (\<forall>us h w'. MAX_RESULTS_TO_PROCESS_v1 \<le> length (jobs h) \<longrightarrow>
      candidates_v1 B us (h, w') = (Inr (), h, w')) \<and>
   (\<forall>sc r h w' h' w''. round_body_v1 B sc r (h, w') = Continue (h', w'') \<longrightarrow>
      length (jobs h') < MAX_RESULTS_TO_PROCESS_v1)"
proof -
  let ?h = "fst (snd (run B w))" and ?g = "fst (snd (run_v1 B w))"
  have h: "harvest_inv MAX_RESULTS_TO_PROCESS ?h" by (rule run_inv)
  have g: "harvest_inv MAX_RESULTS_TO_PROCESS_v1 ?g" by (rule run_v1_inv)
  have h1: "length (jobs ?h) \<le> MAX_RESULTS_TO_PROCESS" using h by (simp add: harvest_inv_def)
  have g1: "length (jobs ?g) \<le> MAX_RESULTS_TO_PROCESS_v1" using g by (simp add: harvest_inv_def)
  have hm: "length (matches (trace ?h)) = length (jobs ?h)"
    using h by (simp add: harvest_inv_def)
  have gm: "length (matches (trace ?g)) = length (jobs ?g)"
    using g by (simp add: harvest_inv_def)
  have h2: "length (matches (take n (trace ?h))) \<le> MAX_RESULTS_TO_PROCESS" for n
    using matches_take [of n "trace ?h"] hm h1 by linarith
  have g2: "length (matches (take n (trace ?g))) \<le> MAX_RESULTS_TO_PROCESS_v1" for n
    using matches_take [of n "trace ?g"] gm g1 by linarith
  have h3: "length js \<le> MAX_RESULTS_TO_PROCESS" if "fetchLinkedInJobsAiHr B w = Inr js" for js
    using fetch_run [OF that] h1 by simp
  have g3: "length js \<le> MAX_RESULTS_TO_PROCESS_v1"
    if "fetchLinkedInJobsAiHr_v1 B w = Inr js" for js
    using fetch_run_v1 [OF that] g1 by simp
  show ?thesis
    using h1 h2 h3 g1 g2 g3 candidates_at_cap [of _ B] candidates_v1_at_cap [of _ B]
      round_body_continue_below_cap [of B] round_body_v1_continue_below_cap [of B]
    by blast
qed

theorem results_never_exceed_cap_witness:
  "fetchLinkedInJobsAiHr four_links [] =
     Inr [recruiter_job ''https://www.linkedin.com/jobs/view/1'',
          recruiter_job ''https://www.linkedin.com/jobs/view/3'']
   \<and> fetchLinkedInJobsAiHr_v1 four_links [] =
     Inr [recruiter_job ''https://www.linkedin.com/jobs/view/1'',
          recruiter_job ''https://www.linkedin.com/jobs/view/3'']
   \<and> (2::nat) \<le> MAX_RESULTS_TO_PROCESS \<and> (2::nat) \<le> MAX_RESULTS_TO_PROCESS_v1
   \<and> (2::nat) < MAX_RESULTS_TO_PROCESS \<and> (2::nat) < MAX_RESULTS_TO_PROCESS_v1
   \<and> candidates four_links [''https://www.linkedin.com/jobs/view/9'']
         (harvest0\<lparr>jobs := replicate 40 (recruiter_job [])\<rparr>, [])
       = (harvest0\<lparr>jobs := replicate 40 (recruiter_job [])\<rparr>, [])
   \<and> candidates_v1 four_links [''https://www.linkedin.com/jobs/view/9'']
         (harvest0\<lparr>jobs := replicate 80 (recruiter_job [])\<rparr>, [])
       = (Inr (), harvest0\<lparr>jobs := replicate 80 (recruiter_job [])\<rparr>, [])"
proof -
  have f: "fetchLinkedInJobsAiHr four_links [] =
     Inr [recruiter_job ''https://www.linkedin.com/jobs/view/1'',
          recruiter_job ''https://www.linkedin.com/jobs/view/3'']"
    by (simp add: fetchLinkedInJobsAiHr_def run_four_links)
  have f1: "fetchLinkedInJobsAiHr_v1 four_links [] =
     Inr [recruiter_job ''https://www.linkedin.com/jobs/view/1'',
          recruiter_job ''https://www.linkedin.com/jobs/view/3'']"
    by (simp add: fetchLinkedInJobsAiHr_v1_def run_v1_four_links)
  have c: "MAX_RESULTS_TO_PROCESS \<le> length (jobs (harvest0\<lparr>jobs := replicate 40 (recruiter_job [])\<rparr>))"
    by (simp add: MAX_RESULTS_TO_PROCESS_def)
  have c1: "MAX_RESULTS_TO_PROCESS_v1 \<le> length (jobs (harvest0\<lparr>jobs := replicate 80 (recruiter_job [])\<rparr>))"
    by (simp add: MAX_RESULTS_TO_PROCESS_v1_def)
  note t = results_never_exceed_cap [of four_links "[]"]
  note A3 = t [THEN conjunct2, THEN conjunct2, THEN conjunct1, rule_format]
  note A4 = t [THEN conjunct2, THEN conjunct2, THEN conjunct2, THEN conjunct1, rule_format]
  note A5 = t [THEN conjunct2, THEN conjunct2, THEN conjunct2, THEN conjunct2,
      THEN conjunct1, rule_format]
  note B3 = t [THEN conjunct2, THEN conjunct2, THEN conjunct2, THEN conjunct2,
      THEN conjunct2, THEN conjunct2, THEN conjunct2, THEN conjunct1, rule_format]
  note B4 = t [THEN conjunct2, THEN conjunct2, THEN conjunct2, THEN conjunct2,
      THEN conjunct2, THEN conjunct2, THEN conjunct2, THEN conjunct2, THEN conjunct1,
      rule_format]
  note B5 = t [THEN conjunct2, THEN conjunct2, THEN conjunct2, THEN conjunct2,
      THEN conjunct2, THEN conjunct2, THEN conjunct2, THEN conjunct2, THEN conjunct2,
      rule_format]
  have a1: "(2::nat) \<le> MAX_RESULTS_TO_PROCESS" using A3 [OF f] by simp
  have a2: "(2::nat) \<le> MAX_RESULTS_TO_PROCESS_v1" using B3 [OF f1] by simp
  have a3: "(2::nat) < MAX_RESULTS_TO_PROCESS" using A5 [OF round_body_four_links] by simp
  have a4: "(2::nat) < MAX_RESULTS_TO_PROCESS_v1"
    using B5 [OF round_body_v1_four_links] by simp
  from f f1 a1 a2 a3 a4 A4 [OF c] B4 [OF c1] show ?thesis by blast
qed

text \<open>
  C2: however the browser behaves and however the run ends, the links of the records in
  the harvest state, and of the returned array, are pairwise distinct, and each of them is
  in \<open>seen\<close>; a candidate key that is in \<open>seen\<close> is skipped. The same holds of the earlier
  version.
\<close>

theorem links_pairwise_distinct:
  "distinct (map link (jobs (fst (snd (run B w))))) \<and>
   set (map link (jobs (fst (snd (run B w))))) \<subseteq> seen (fst (snd (run B w))) \<and>
   (\<forall>js. fetchLinkedInJobsAiHr B w = Inr js \<longrightarrow> distinct (map link js)) \<and>
   (\<forall>u us h w'. u \<in> seen h \<longrightarrow> candidates B (u # us) (h, w') = candidates B us (h, w')) \<and>
   distinct (map link (jobs (fst (snd (run_v1 B w))))) \<and>
   set (map link (jobs (fst (snd (run_v1 B w))))) \<subseteq> seen (fst (snd (run_v1 B w))) \<and>
   (\<forall>js. fetchLinkedInJobsAiHr_v1 B w = Inr js \<longrightarrow> distinct (map link js)) \<and>
   (\<forall>u us h w'. u \<in> seen h \<longrightarrow>
      candidates_v1 B (u # us) (h, w') = candidates_v1 B us (h, w'))"
proof -
  let ?h = "fst (snd (run B w))" and ?g = "fst (snd (run_v1 B w))"
  have h: "harvest_inv MAX_RESULTS_TO_PROCESS ?h" by (rule run_inv)
  have g: "harvest_inv MAX_RESULTS_TO_PROCESS_v1 ?g" by (rule run_v1_inv)
  have h1: "distinct (map link (jobs ?h))" using h by (simp add: harvest_inv_def)
  have g1: "distinct (map link (jobs ?g))" using g by (simp add: harvest_inv_def)
  have h2: "set (map link (jobs ?h)) \<subseteq> seen ?h" using h by (simp add: harvest_inv_def)
  have g2: "set (map link (jobs ?g)) \<subseteq> seen ?g" using g by (simp add: harvest_inv_def)
  have h3: "distinct (map link js)" if "fetchLinkedInJobsAiHr B w = Inr js" for js
    using fetch_run [OF that] h1 by simp
  have g3: "distinct (map link js)" if "fetchLinkedInJobsAiHr_v1 B w = Inr js" for js
    using fetch_run_v1 [OF that] g1 by simp
  show ?thesis
    using h1 h2 h3 g1 g2 g3 candidates_skip_seen [of _ _ B] candidates_v1_skip_seen [of _ _ B]
    by blast
qed

theorem links_pairwise_distinct_witness:
  "fetchLinkedInJobsAiHr four_links [] =
     Inr [recruiter_job ''https://www.linkedin.com/jobs/view/1'',
          recruiter_job ''https://www.linkedin.com/jobs/view/3'']
   \<and> fetchLinkedInJobsAiHr_v1 four_links [] =
     Inr [recruiter_job ''https://www.linkedin.com/jobs/view/1'',
          recruiter_job ''https://www.linkedin.com/jobs/view/3'']
   \<and> distinct (map link [recruiter_job ''https://www.linkedin.com/jobs/view/1'',
          recruiter_job ''https://www.linkedin.com/jobs/view/3''])
   \<and> candidates four_links [''k'', ''l''] (harvest0\<lparr>seen := {''k''}\<rparr>, [])
       = candidates four_links [''l''] (harvest0\<lparr>seen := {''k''}\<rparr>, [])
   \<and> candidates_v1 four_links [''k'', ''l''] (harvest0\<lparr>seen := {''k''}\<rparr>, [])
       = candidates_v1 four_links [''l''] (harvest0\<lparr>seen := {''k''}\<rparr>, [])"
proof -
  have f: "fetchLinkedInJobsAiHr four_links [] =
     Inr [recruiter_job ''https://www.linkedin.com/jobs/view/1'',
          recruiter_job ''https://www.linkedin.com/jobs/view/3'']"
    by (simp add: fetchLinkedInJobsAiHr_def run_four_links)
  have f1: "fetchLinkedInJobsAiHr_v1 four_links [] =
     Inr [recruiter_job ''https://www.linkedin.com/jobs/view/1'',
          recruiter_job ''https://www.linkedin.com/jobs/view/3'']"
    by (simp add: fetchLinkedInJobsAiHr_v1_def run_v1_four_links)
  have s: "''k'' \<in> seen (harvest0\<lparr>seen := {''k''}\<rparr>)" by simp
  from links_pairwise_distinct [of four_links "[]"] f f1 s show ?thesis
    by blast
qed

text \<open>
  C3: in the trace of every run, however the browser behaves and however the run ends,
  every dispatch to detail extraction (\<open>OpenJob\<close>) comes directly after the \<open>SeenAdd\<close>
  of the same key and every \<open>SeenAdd\<close> is directly followed by the dispatch of its key
  (\<open>paired\<close>); no key is dispatched twice, in whatever round it is found again; and the
  keys dispatched are the keys in \<open>seen\<close>. The same holds of the earlier version.
\<close>

theorem marked_before_dispatch_never_redispatched:
  "paired (trace (fst (snd (run B w)))) \<and>
   distinct (opens (trace (fst (snd (run B w))))) \<and>
   opens (trace (fst (snd (run B w)))) = adds (trace (fst (snd (run B w)))) \<and>
   set (opens (trace (fst (snd (run B w))))) = seen (fst (snd (run B w))) \<and>
   paired (trace (fst (snd (run_v1 B w)))) \<and>
   distinct (opens (trace (fst (snd (run_v1 B w))))) \<and>
   opens (trace (fst (snd (run_v1 B w)))) = adds (trace (fst (snd (run_v1 B w)))) \<and>
   set (opens (trace (fst (snd (run_v1 B w))))) = seen (fst (snd (run_v1 B w)))"
  using run_inv [of B w] run_v1_inv [of B w] by (simp add: harvest_inv_def)

section \<open>Content filter: properties\<close>






















lemma canonical_hrefs_three:
  "canonical_hrefs [''/jobs/view/1'', ''/jobs/view/2'', ''/jobs/view/3''] =
     [''https://www.linkedin.com/jobs/view/1'', ''https://www.linkedin.com/jobs/view/2'',
      ''https://www.linkedin.com/jobs/view/3'']"
  by code_simp




lemma details_v1_split:
  "readJobPageDetails_v1 parse_example page_split =
     Inr \<lparr>details.jobTitle = ''Recruiter'', company = ''KI Labs'', description = [],
          postingDate = []\<rparr>"
  by code_simp


lemma details_v1_staff:
  "readJobPageDetails_v1 parse_example page_staff =
     Inr \<lparr>details.jobTitle = ''HR Manager'', company = ''Acme'', description = [],
          postingDate = []\<rparr>"
  by code_simp

lemma matches_split:
  "matchesAIandHR (haystack \<lparr>details.jobTitle = ''Recruiter'', company = ''KI Labs'',
      description = [], postingDate = []\<rparr>) = \<lparr>ai = True, hr = True, ok = True\<rparr>"
  by code_simp

lemma matches_staff:
  "matchesAIandHR (haystack \<lparr>details.jobTitle = ''HR Manager'', company = ''Acme'',
      description = [], postingDate = []\<rparr>) = \<lparr>ai = False, hr = True, ok = False\<rparr>"
  by code_simp

text \<open>
  The verdict on single texts: the title of \<open>page_split\<close> alone has no match of the
  first pattern; letter case does not matter; a pattern word inside a longer word is no
  match.
\<close>

lemma matches_examples:
  "matchesAIandHR ''Recruiter'' = \<lparr>ai = False, hr = True, ok = False\<rparr>"
  "matchesAIandHR ''k.i. und PERSONAL'' = \<lparr>ai = True, hr = True, ok = True\<rparr>"
  "matchesAIandHR ''Email, Chr'' = \<lparr>ai = False, hr = False, ok = False\<rparr>"
  by code_simp+

lemma three_kinds_sel:
  "Date_parse three_kinds = parse_example"
  "page_goto three_kinds = (\<lambda>url w. (Inr (), url))"
  "goto_race three_kinds = (\<lambda>url ms w. (Loaded, url))"
  "handleConsentIfPresent three_kinds = (\<lambda>w. w)"
  "waitForAnyJobLinks three_kinds = (\<lambda>w. w)"
  "waitForJobsOrDetectBlock three_kinds = (\<lambda>w. (OK, w))"
  "findLeftListScroller three_kinds = (\<lambda>w. (Inr (Some 0), w))"
  "collectLeftHrefs three_kinds =
     (\<lambda>scroller w. ([''/jobs/view/1'', ''/jobs/view/2'', ''/jobs/view/3''], w))"
  "scrollLeft three_kinds = (\<lambda>scroller delta w. w)"
  "read_page three_kinds =
     (\<lambda>w. (if w = ''https://www.linkedin.com/jobs/view/1'' then page_split
            else if w = ''https://www.linkedin.com/jobs/view/2'' then page_engineer
            else page_staff, w))"
  by (simp_all add: three_kinds_def three_engineers_def four_links_def)


lemma visit_v1_three_kinds:
  "visit_v1 three_kinds ''https://www.linkedin.com/jobs/view/1'' (h, w) =
     (Inr (),
      h\<lparr>jobs := jobs h @ [split_job],
        trace := trace h @ [OpenJob ''https://www.linkedin.com/jobs/view/1'',
                            Match ''https://www.linkedin.com/jobs/view/1'']\<rparr>,
      ''https://www.linkedin.com/jobs/view/1'')"
  "visit_v1 three_kinds ''https://www.linkedin.com/jobs/view/2'' (h, w) =
     (Inr (), h\<lparr>trace := trace h @ [OpenJob ''https://www.linkedin.com/jobs/view/2'']\<rparr>,
      ''https://www.linkedin.com/jobs/view/2'')"
  "visit_v1 three_kinds ''https://www.linkedin.com/jobs/view/3'' (h, w) =
     (Inr (), h\<lparr>trace := trace h @ [OpenJob ''https://www.linkedin.com/jobs/view/3'']\<rparr>,
      ''https://www.linkedin.com/jobs/view/3'')"
  by (simp_all add: visit_v1_def three_kinds_sel details_v1_split matches_split
        details_v1_engineer matches_engineer details_v1_staff matches_staff to_ApiJob_def
        split_job_def Let_def)


lemma run_v1_three_kinds:
  "run_v1 three_kinds [] =
     (Inr (),
      \<lparr>seen = {''https://www.linkedin.com/jobs/view/3'', ''https://www.linkedin.com/jobs/view/2'',
               ''https://www.linkedin.com/jobs/view/1''},
       jobs = [split_job], stagnant = 4, lastSeen = 3,
       trace = [Round 0,
                SeenAdd ''https://www.linkedin.com/jobs/view/1'',
                OpenJob ''https://www.linkedin.com/jobs/view/1'',
                Match ''https://www.linkedin.com/jobs/view/1'',
                SeenAdd ''https://www.linkedin.com/jobs/view/2'',
                OpenJob ''https://www.linkedin.com/jobs/view/2'',
                SeenAdd ''https://www.linkedin.com/jobs/view/3'',
                OpenJob ''https://www.linkedin.com/jobs/view/3'',
                Round 1, Round 2, Round 3, Round 4]\<rparr>,
      SEARCH_URL)"
  by (simp add: run_v1_def rounds_v1.simps round_body_v1_def three_kinds_sel
        canonical_hrefs_three visit_v1_three_kinds harvest0_def
        MAX_SCROLL_ROUNDS_v1_def MAX_RESULTS_TO_PROCESS_v1_def Let_def)


section \<open>Detail extractor: properties\<close>




text \<open>
  When the button is visible and the wait after the click rejects, the extractor
  rejects with the same error, in both versions.
\<close>

lemma readJobPageDetails_Inl:
  assumes "catch (showMore_isVisible p) False" and "showMore_wait p = Inl e"
  shows "readJobPageDetails parse p = Inl e" and "readJobPageDetails_v1 parse p = Inl e"
  using assms by (simp_all add: readJobPageDetails_def readJobPageDetails_v1_def Let_def)









section \<open>The stagnation counter\<close>

text \<open>
  A visit changes neither counter, and \<open>seen\<close> only grows.
\<close>

lemma extends_by_visit_counters:
  "extends_by_visit u h h' \<Longrightarrow>
   stagnant h' = stagnant h \<and> lastSeen h' = lastSeen h \<and> seen h' = seen h"
  by (auto simp: extends_by_visit_def)

lemma candidates_counters:
  "stagnant (fst (candidates B us (h, w))) = stagnant h \<and>
   lastSeen (fst (candidates B us (h, w))) = lastSeen h \<and>
   seen h \<subseteq> seen (fst (candidates B us (h, w)))"
proof (rule candidates_rule
    [where P = "\<lambda>x. stagnant x = stagnant h \<and> lastSeen x = lastSeen h \<and> seen h \<subseteq> seen x"])
  fix x :: harvest and w :: 'a and u
  assume "stagnant x = stagnant h \<and> lastSeen x = lastSeen h \<and> seen h \<subseteq> seen x"
  then show "stagnant (fst (visit B u
        (x\<lparr>seen := insert u (seen x), trace := trace x @ [SeenAdd u]\<rparr>, w))) = stagnant h \<and>
      lastSeen (fst (visit B u
        (x\<lparr>seen := insert u (seen x), trace := trace x @ [SeenAdd u]\<rparr>, w))) = lastSeen h \<and>
      seen h \<subseteq> seen (fst (visit B u
        (x\<lparr>seen := insert u (seen x), trace := trace x @ [SeenAdd u]\<rparr>, w)))"
    using extends_by_visit_counters [OF visit_extends
        [of u "x\<lparr>seen := insert u (seen x), trace := trace x @ [SeenAdd u]\<rparr>" B w]]
    by auto
qed simp

lemma candidates_v1_counters:
  "stagnant (fst (snd (candidates_v1 B us (h, w)))) = stagnant h \<and>
   lastSeen (fst (snd (candidates_v1 B us (h, w)))) = lastSeen h \<and>
   seen h \<subseteq> seen (fst (snd (candidates_v1 B us (h, w))))"
proof (rule candidates_v1_rule
    [where P = "\<lambda>x. stagnant x = stagnant h \<and> lastSeen x = lastSeen h \<and> seen h \<subseteq> seen x"])
  fix x :: harvest and w :: 'a and u
  assume "stagnant x = stagnant h \<and> lastSeen x = lastSeen h \<and> seen h \<subseteq> seen x"
  then show "stagnant (fst (snd (visit_v1 B u
        (x\<lparr>seen := insert u (seen x), trace := trace x @ [SeenAdd u]\<rparr>, w)))) = stagnant h \<and>
      lastSeen (fst (snd (visit_v1 B u
        (x\<lparr>seen := insert u (seen x), trace := trace x @ [SeenAdd u]\<rparr>, w)))) = lastSeen h \<and>
      seen h \<subseteq> seen (fst (snd (visit_v1 B u
        (x\<lparr>seen := insert u (seen x), trace := trace x @ [SeenAdd u]\<rparr>, w))))"
    using extends_by_visit_counters [OF visit_v1_extends
        [of u "x\<lparr>seen := insert u (seen x), trace := trace x @ [SeenAdd u]\<rparr>" B w]]
    by auto
qed simp

text \<open>
  In the later version a round that goes on to the next round has counted one up,
  whether or not it added keys to \<open>seen\<close>: the test compares \<open>seen.size\<close> with itself.
\<close>

lemma round_body_counts_every_round:
  assumes "round_body B r (h, w) = Continue (h', w')"
  shows "stagnant h' = stagnant h + 1 \<and> stagnant h' < 5"
proof -
  have c: "candidates B us (h\<lparr>trace := trace h @ [Round r]\<rparr>, v) = (x, v') \<Longrightarrow>
      stagnant x = stagnant h" for us v x v'
    using candidates_counters [of B us "h\<lparr>trace := trace h @ [Round r]\<rparr>" v] by simp
  show ?thesis
    using assms unfolding round_body_def Let_def
    by (auto split: prod.splits sum.splits if_splits dest: c)
qed

text \<open>
  In the earlier version a round that goes on to the next round has applied the rule:
  the counter is one more than before if \<open>seen\<close> has the size it had at the end of the
  round before, and 0 otherwise, and \<open>lastSeen\<close> is the new size.
\<close>

lemma round_body_v1_counter_rule:
  assumes "round_body_v1 B sc r (h, w) = Continue (h', w')"
  shows "stagnant h' = (if card (seen h') = lastSeen h then stagnant h + 1 else 0) \<and>
         lastSeen h' = card (seen h') \<and> seen h \<subseteq> seen h'"
proof -
  let ?h0 = "h\<lparr>trace := trace h @ [Round r]\<rparr>"
  obtain raw w1 where col: "collectLeftHrefs B sc (handleConsentIfPresent B w) = (raw, w1)"
    by force
  obtain y x w2 where cand: "candidates_v1 B (canonical_hrefs raw) (?h0, w1) = (y, x, w2)"
    by (metis prod_cases3)
  have cx: "stagnant x = stagnant h" "lastSeen x = lastSeen h" "seen h \<subseteq> seen x"
    using candidates_v1_counters [of B "canonical_hrefs raw" ?h0 w1] cand by simp_all
  from assms col cand have
    "h' = (if card (seen x) = lastSeen x
           then x\<lparr>stagnant := stagnant x + 1, lastSeen := card (seen x)\<rparr>
           else x\<lparr>stagnant := 0, lastSeen := card (seen x)\<rparr>)"
    by (auto simp: round_body_v1_def Let_def split: sum.splits if_splits prod.splits)
  with cx show ?thesis by auto
qed


text \<open>
  So the later version never starts a sixth round, whatever the list reveals: at the
  start of round \<open>r\<close> the counter is \<open>r\<close>, and the run stops when it is 5.
\<close>

lemma extends_by_visit_rounds:
  "extends_by_visit u h h' \<Longrightarrow> (Round r \<in> set (trace h')) = (Round r \<in> set (trace h))"
  by (auto simp: extends_by_visit_def)

lemma candidates_rounds:
  "(Round r \<in> set (trace (fst (candidates B us (h, w))))) = (Round r \<in> set (trace h))"
proof (rule candidates_rule
    [where P = "\<lambda>x. (Round r \<in> set (trace x)) = (Round r \<in> set (trace h))"])
  fix x :: harvest and w :: 'a and u
  assume "(Round r \<in> set (trace x)) = (Round r \<in> set (trace h))"
  then show "(Round r \<in> set (trace (fst (visit B u
        (x\<lparr>seen := insert u (seen x), trace := trace x @ [SeenAdd u]\<rparr>, w)))))
      = (Round r \<in> set (trace h))"
    using extends_by_visit_rounds [OF visit_extends
        [of u "x\<lparr>seen := insert u (seen x), trace := trace x @ [SeenAdd u]\<rparr>" B w], of r]
    by simp
qed simp

lemma round_body_rounds:
  "Round x \<in> set (trace (fst (step_state (round_body B r (h, w))))) \<Longrightarrow>
   x = r \<or> Round x \<in> set (trace h)"
proof -
  have c: "candidates B us (h\<lparr>trace := trace h @ [Round r]\<rparr>, v) = (y, v') \<Longrightarrow>
      Round x \<in> set (trace y) \<Longrightarrow> x = r \<or> Round x \<in> set (trace h)" for us v y v'
    using candidates_rounds [of x B us "h\<lparr>trace := trace h @ [Round r]\<rparr>" v] by auto
  show "Round x \<in> set (trace (fst (step_state (round_body B r (h, w))))) \<Longrightarrow>
      x = r \<or> Round x \<in> set (trace h)"
    unfolding round_body_def Let_def
    by (auto split: prod.splits sum.splits if_splits dest: c)
qed

lemma rounds_never_six:
  "stagnant (fst st) = r \<Longrightarrow> r < 5 \<Longrightarrow>
   (\<And>x. Round x \<in> set (trace (fst st)) \<Longrightarrow> x < 5) \<Longrightarrow>
   Round x \<in> set (trace (fst (snd (rounds B r st)))) \<Longrightarrow> x < 5"
proof (induction "MAX_SCROLL_ROUNDS - r" arbitrary: r st)
  case 0
  then show ?case by (simp add: rounds.simps [of B r st])
next
  case (Suc n)
  obtain h w where st: "st = (h, w)" by (cases st)
  from Suc.hyps(2) have lt: "r < MAX_SCROLL_ROUNDS" and n: "n = MAX_SCROLL_ROUNDS - Suc r"
    by auto
  have b: "Round y \<in> set (trace (fst (step_state (round_body B r st)))) \<Longrightarrow> y < 5" for y
    using round_body_rounds [of y B r h w] Suc.prems(2) Suc.prems(3) [of y] st by auto
  show ?case
  proof (cases "round_body B r st")
    case (Continue st')
    obtain h' w' where st': "st' = (h', w')" by (cases st')
    from round_body_counts_every_round [of B r h w h' w'] Continue st st' Suc.prems(1)
    have s: "stagnant (fst st') = Suc r" and s5: "Suc r < 5" by auto
    have t: "Round y \<in> set (trace (fst st')) \<Longrightarrow> y < 5" for y
      using b [of y] Continue by simp
    have "Round x \<in> set (trace (fst (snd (rounds B (Suc r) st'))))"
      using Suc.prems(4) lt Continue by (simp add: rounds.simps [of B r st])
    from Suc.hyps(1) [OF n s s5 t this] show ?thesis by simp
  next
    case (Break st')
    with b [of x] lt Suc.prems(4) show ?thesis by (simp add: rounds.simps [of B r st])
  next
    case (Throw e st')
    with b [of x] lt Suc.prems(4) show ?thesis by (simp add: rounds.simps [of B r st])
  qed
qed

lemma run_never_six_rounds:
  "Round x \<in> set (trace (fst (snd (run B w)))) \<Longrightarrow> x < 5"
proof -
  have "Round x \<in> set (trace (fst (snd (rounds B 0 (harvest0, v))))) \<Longrightarrow> x < 5" for v
    using rounds_never_six [of "(harvest0, v)" 0 x B] by (simp add: harvest0_def)
  then show "Round x \<in> set (trace (fst (snd (run B w)))) \<Longrightarrow> x < 5"
    unfolding run_def Let_def
    by (auto simp: harvest0_def split: prod.splits sum.splits if_splits)
qed

text \<open>
  C4, at an input where the later version departs from the rule of the claim: on
  \<open>growing_list\<close> every round finds and visits a key that was not seen before, yet
  \<open>stagnant\<close> goes up in every round and the run stops after five of its ten rounds, with
  five of the ten postings never seen. \<open>prevSeen\<close> is read after the loop over the
  candidates, just before it is compared with \<open>seen.size\<close>.
\<close>

theorem stagnation_counted_although_seen_grew:
  "run growing_list 0 =
     (Inr (),
      \<lparr>seen = {''https://www.linkedin.com/jobs/view/4'', ''https://www.linkedin.com/jobs/view/3'',
               ''https://www.linkedin.com/jobs/view/2'', ''https://www.linkedin.com/jobs/view/1'',
               ''https://www.linkedin.com/jobs/view/0''},
       jobs = [], stagnant = 5, lastSeen = 0,
       trace = [Round 0,
                SeenAdd ''https://www.linkedin.com/jobs/view/0'',
                OpenJob ''https://www.linkedin.com/jobs/view/0'',
                Round 1,
                SeenAdd ''https://www.linkedin.com/jobs/view/1'',
                OpenJob ''https://www.linkedin.com/jobs/view/1'',
                Round 2,
                SeenAdd ''https://www.linkedin.com/jobs/view/2'',
                OpenJob ''https://www.linkedin.com/jobs/view/2'',
                Round 3,
                SeenAdd ''https://www.linkedin.com/jobs/view/3'',
                OpenJob ''https://www.linkedin.com/jobs/view/3'',
                Round 4,
                SeenAdd ''https://www.linkedin.com/jobs/view/4'',
                OpenJob ''https://www.linkedin.com/jobs/view/4'']\<rparr>,
      5)"
  by (rule run_growing_list)

section \<open>Posting date: properties\<close>

lemma div_bounds:
  fixes a b :: int
  assumes "0 < b"
  shows "b * (a div b) \<le> a" and "a < b * (a div b) + b"
proof -
  have e: "a = b * (a div b) + a mod b" by simp
  have "0 \<le> a mod b" and "a mod b < b" using assms by simp_all
  with e show "b * (a div b) \<le> a" and "a < b * (a div b) + b" by linarith+
qed

lemma year_estimate:
  fixes d :: int
  shows "DayFromYear (1970 + (d * 400) div 146097 - 1) \<le> d"
    and "d < DayFromYear (1970 + (d * 400) div 146097 + 2)"
proof -
  define q where "q = (d * 400) div 146097"
  define a1 a2 a3 where "a1 = q div 4" and "a2 = (q + 68) div 100" and "a3 = (q + 368) div 400"
  define b1 b2 b3 where "b1 = (q + 3) div 4" and "b2 = (q + 71) div 100"
    and "b3 = (q + 371) div 400"
  have q: "146097 * q \<le> d * 400" "d * 400 < 146097 * q + 146097"
    unfolding q_def using div_bounds [of 146097 "d * 400"] by simp_all
  have a: "4 * a1 \<le> q" "q + 68 < 100 * a2 + 100" "400 * a3 \<le> q + 368"
    unfolding a1_def a2_def a3_def
    using div_bounds [of 4 q] div_bounds [of 100 "q + 68"] div_bounds [of 400 "q + 368"]
    by simp_all
  have b: "q + 3 < 4 * b1 + 4" "100 * b2 \<le> q + 71" "q + 371 < 400 * b3 + 400"
    unfolding b1_def b2_def b3_def
    using div_bounds [of 4 "q + 3"] div_bounds [of 100 "q + 71"] div_bounds [of 400 "q + 371"]
    by simp_all
  have "DayFromYear (1970 + q - 1) = 365 * (q - 1) + a1 - a2 + a3"
    by (simp add: DayFromYear_def a1_def a2_def a3_def algebra_simps)
  moreover have "365 * (q - 1) + a1 - a2 + a3 \<le> d" using q a by simp
  ultimately show "DayFromYear (1970 + (d * 400) div 146097 - 1) \<le> d"
    unfolding q_def [symmetric] by simp
  have "DayFromYear (1970 + q + 2) = 365 * (q + 2) + b1 - b2 + b3"
    by (simp add: DayFromYear_def b1_def b2_def b3_def algebra_simps)
  moreover have "d < 365 * (q + 2) + b1 - b2 + b3" using q b by simp
  ultimately show "d < DayFromYear (1970 + (d * 400) div 146097 + 2)"
    unfolding q_def [symmetric] by simp
qed




lemma div_succ:
  fixes a n :: int
  assumes "0 < n"
  shows "(a + 1) div n = a div n + (if (a + 1) mod n = 0 then 1 else 0)"
proof -
  note e = mult_div_mod_eq [of n a]
  have r: "0 \<le> a mod n" "a mod n < n" using assms by simp_all
  show ?thesis
  proof (cases "a mod n + 1 = n")
    case True
    have d: "n * (a div n + 1) = n * (a div n) + n" by (simp add: algebra_simps)
    from e True d have e1: "a + 1 = n * (a div n + 1) + 0" by linarith
    have "(a + 1) div n = a div n + 1"
      using int_div_pos_eq [OF e1 _ assms] by simp
    moreover have "(a + 1) mod n = 0"
      using int_mod_pos_eq [OF e1 _ assms] by simp
    ultimately show ?thesis by simp
  next
    case False
    with r have lt: "a mod n + 1 < n" by simp
    from e have e1: "a + 1 = n * (a div n) + (a mod n + 1)" by linarith
    have "(a + 1) div n = a div n"
      using int_div_pos_eq [OF e1 _ lt] r by simp
    moreover have "(a + 1) mod n = a mod n + 1"
      using int_mod_pos_eq [OF e1 _ lt] r by simp
    ultimately show ?thesis using r by simp
  qed
qed

lemma mod_shift:
  fixes y n k :: int
  shows "(y - n * k) mod n = y mod n"
  by (metis mod_diff_right_eq mod_mult_self1_is_0 diff_zero)

lemma mod_chain: "(y::int) mod (n * k) = 0 \<Longrightarrow> y mod n = 0"
  by (metis dvd_mult_left mod_0_imp_dvd dvd_imp_mod_0)

lemma DayFromYear_Suc: "DayFromYear (y + 1) = DayFromYear y + DaysInYear y"
proof -
  have m4: "(y - 1969 + 1) mod 4 = y mod 4" using mod_shift [of y 4 492] by simp
  have m100: "(y - 1901 + 1) mod 100 = y mod 100" using mod_shift [of y 100 19] by simp
  have m400: "(y - 1601 + 1) mod 400 = y mod 400" using mod_shift [of y 400 4] by simp
  have s4: "(y + 1 - 1969) div 4 = (y - 1969) div 4 + (if y mod 4 = 0 then 1 else 0)"
    using div_succ [of 4 "y - 1969"] m4 by (simp add: algebra_simps)
  have s100: "(y + 1 - 1901) div 100 = (y - 1901) div 100 + (if y mod 100 = 0 then 1 else 0)"
    using div_succ [of 100 "y - 1901"] m100 by (simp add: algebra_simps)
  have s400: "(y + 1 - 1601) div 400 = (y - 1601) div 400 + (if y mod 400 = 0 then 1 else 0)"
    using div_succ [of 400 "y - 1601"] m400 by (simp add: algebra_simps)
  have c1: "y mod 400 = 0 \<Longrightarrow> y mod 100 = 0" using mod_chain [of y 100 4] by simp
  have c2: "y mod 100 = 0 \<Longrightarrow> y mod 4 = 0" using mod_chain [of y 4 25] by simp
  show ?thesis
    unfolding DayFromYear_def DaysInYear_def s4 s100 s400
    using c1 c2 by auto
qed

lemma YearFromTime_correct:
  "DayFromYear (YearFromTime t) \<le> Day t \<and> Day t < DayFromYear (YearFromTime t + 1)"
proof -
  define d where "d = Day t"
  define y0 where "y0 = 1970 + (d * 400) div 146097"
  have lo: "DayFromYear (y0 - 1) \<le> d" and hi: "d < DayFromYear (y0 + 2)"
    unfolding y0_def using year_estimate [of d] by simp_all
  have y: "YearFromTime t =
      (if d < DayFromYear y0 then y0 - 1 else if DayFromYear (y0 + 1) \<le> d then y0 + 1 else y0)"
    by (simp add: YearFromTime_def Let_def d_def y0_def)
  have "y0 + 1 + 1 = y0 + 2" "y0 - 1 + 1 = y0" by simp_all
  with lo hi show ?thesis
    unfolding y d_def [symmetric] by (auto simp: add.commute)
qed

lemma DayWithinYear_bounds:
  "0 \<le> DayWithinYear t \<and> DayWithinYear t < 365 + InLeapYear t"
proof -
  have "DaysInYear (YearFromTime t) = 365 + InLeapYear t"
    by (simp add: InLeapYear_def DaysInYear_def)
  with YearFromTime_correct [of t] DayFromYear_Suc [of "YearFromTime t"] show ?thesis
    by (simp add: DayWithinYear_def)
qed

lemma InLeapYear_cases: "InLeapYear t = 0 \<or> InLeapYear t = 1"
  by (simp add: InLeapYear_def)

lemma MonthFromTime_bounds: "0 \<le> MonthFromTime t \<and> MonthFromTime t \<le> 11"
  by (simp add: MonthFromTime_def Let_def)

lemma DateFromTime_bounds: "1 \<le> DateFromTime t \<and> DateFromTime t \<le> 31"
  using DayWithinYear_bounds [of t] InLeapYear_cases [of t]
  unfolding DateFromTime_def MonthFromTime_def Let_def
  by (auto split: if_splits)

lemma digit_chars:
  "map (\<lambda>d. char_of (48 + d)) [0, 1, 2, 3, 4, 5, 6, 7, 8, 9 :: nat] = ''0123456789''"
  by code_simp

lemma digit_char:
  fixes d :: nat
  assumes "d < 10"
  shows "char_of (48 + d) \<in> set ''0123456789''"
proof -
  from assms have "d \<in> set [0, 1, 2, 3, 4, 5, 6, 7, 8, 9 :: nat]" by auto
  then have "char_of (48 + d) \<in> set (map (\<lambda>d. char_of (48 + d)) [0, 1, 2, 3, 4, 5, 6, 7, 8, 9 :: nat])"
    unfolding set_map by (rule imageI)
  then show ?thesis unfolding digit_chars .
qed

lemma String_nat_digits: "set (String_nat n) \<subseteq> set ''0123456789''"
proof (induction n rule: String_nat.induct)
  case (1 n)
  show ?case
  proof (cases "n < 10")
    case True
    then show ?thesis using digit_char [of n] by (subst String_nat.simps) simp
  next
    case False
    have "n mod 10 < 10" by simp
    then have "char_of (48 + n mod 10) \<in> set ''0123456789''" by (rule digit_char)
    with 1 False show ?thesis by (subst String_nat.simps) simp
  qed
qed

lemma String_nat_length:
  "length (String_nat n) = (if n < 10 then 1 else Suc (length (String_nat (n div 10))))"
  by (subst String_nat.simps) simp

lemma String_nat_length_1: "n < 10 \<Longrightarrow> length (String_nat n) = 1"
  by (subst String_nat_length) simp

lemma String_nat_length_2: "10 \<le> n \<Longrightarrow> n < 100 \<Longrightarrow> length (String_nat n) = 2"
proof -
  assume a: "10 \<le> n" "n < 100"
  then have "n div 10 < 10" by auto
  then have "length (String_nat (n div 10)) = 1" by (rule String_nat_length_1)
  with a show ?thesis by (subst String_nat_length) simp
qed

lemma String_nat_length_3: "100 \<le> n \<Longrightarrow> n < 1000 \<Longrightarrow> length (String_nat n) = 3"
proof -
  assume a: "100 \<le> n" "n < 1000"
  then have "10 \<le> n div 10" "n div 10 < 100" by auto
  then have "length (String_nat (n div 10)) = 2" by (rule String_nat_length_2)
  with a show ?thesis by (subst String_nat_length) simp
qed

lemma String_nat_length_4: "1000 \<le> n \<Longrightarrow> n < 10000 \<Longrightarrow> length (String_nat n) = 4"
proof -
  assume a: "1000 \<le> n" "n < 10000"
  then have "100 \<le> n div 10" "n div 10 < 1000" by auto
  then have "length (String_nat (n div 10)) = 3" by (rule String_nat_length_3)
  with a show ?thesis by (subst String_nat_length) simp
qed

lemma padStart_two_digits:
  assumes "0 \<le> i" "i < 100"
  shows "length (padStart 2 CHR ''0'' (String_int i)) = 2 \<and>
         set (padStart 2 CHR ''0'' (String_int i)) \<subseteq> set ''0123456789''"
proof -
  from assms have s: "String_int i = String_nat (nat i)" by (simp add: String_int_def)
  have d: "set (String_nat (nat i)) \<subseteq> set ''0123456789''" by (rule String_nat_digits)
  show ?thesis
  proof (cases "nat i < 10")
    case True
    then have "length (String_nat (nat i)) = 1" by (rule String_nat_length_1)
    with d show ?thesis unfolding s padStart_def by auto
  next
    case False
    with assms have "length (String_nat (nat i)) = 2" by (intro String_nat_length_2) auto
    with d show ?thesis unfolding s padStart_def by auto
  qed
qed

text \<open>
  The posting date is empty exactly when the platform's parser rejects the string;
  otherwise it is the decimal numeral of the UTC year, a hyphen, two digits for the
  month, a hyphen and two digits for the day. The numeral of the year has four digits
  for the years 1000 to 9999.
\<close>

lemma toIsoDateOrEmpty_shape:
  "(parse s = None \<and> toIsoDateOrEmpty parse s = []) \<or>
   (\<exists>t mm dd. parse s = Some t \<and>
      toIsoDateOrEmpty parse s = String_int (YearFromTime t) @ ''-'' @ mm @ ''-'' @ dd \<and>
      length mm = 2 \<and> length dd = 2 \<and>
      set mm \<subseteq> set ''0123456789'' \<and> set dd \<subseteq> set ''0123456789'')"
proof (cases "parse s")
  case None
  then show ?thesis by (simp add: toIsoDateOrEmpty_def)
next
  case (Some t)
  have m: "0 \<le> MonthFromTime t + 1" "MonthFromTime t + 1 < 100"
    using MonthFromTime_bounds [of t] by simp_all
  have d: "0 \<le> DateFromTime t" "DateFromTime t < 100"
    using DateFromTime_bounds [of t] by simp_all
  let ?mm = "padStart 2 CHR ''0'' (String_int (MonthFromTime t + 1))"
  let ?dd = "padStart 2 CHR ''0'' (String_int (DateFromTime t))"
  have "toIsoDateOrEmpty parse s = String_int (YearFromTime t) @ ''-'' @ ?mm @ ''-'' @ ?dd"
    using Some by (simp add: toIsoDateOrEmpty_def Let_def)
  with Some padStart_two_digits [OF m] padStart_two_digits [OF d] show ?thesis
    by (intro disjI2 exI [of _ t] exI [of _ ?mm] exI [of _ ?dd]) simp
qed

lemma four_digit_year:
  assumes "1000 \<le> y" "y \<le> 9999"
  shows "length (String_int y) = 4 \<and> set (String_int y) \<subseteq> set ''0123456789''"
proof -
  from assms have s: "String_int y = String_nat (nat y)" by (simp add: String_int_def)
  from assms have "length (String_nat (nat y)) = 4" by (intro String_nat_length_4) auto
  with String_nat_digits [of "nat y"] show ?thesis unfolding s by simp
qed

text \<open>
  C10, at an input where the engine departs from the claim: the year is printed without
  padding, so a \<open>datetime\<close> attribute of the year 999 gives a posting date that does not
  have the shape \<open>YYYY-MM-DD\<close>.
\<close>

theorem posting_date_year_not_padded:
  "toIsoDateOrEmpty parse_example ''0999-12-31'' = ''999-12-31'' \<and>
   readJobPageDetails parse_example (page_recruiter\<lparr>time_datetime := Inr (Some ''0999-12-31'')\<rparr>)
     = Inr \<lparr>details.jobTitle = ''AI Recruiter'', company = ''Acme'', description = [],
            postingDate = ''999-12-31''\<rparr>"
  by code_simp

end
